theory Spec2Isabelle
  imports Main
begin

section \<open>Python primitives used by the program\<close>

text \<open>
  The program is \<^verbatim>\<open>yahooquery_to_mongodb.py\<close>. Python integers are unbounded, so
  they are \<open>int\<close>; exceptions are values of \<open>error\<close>.
\<close>

datatype error =
    ValueError
  | ZeroDivisionError
  | TransportError string
  | InvalidOperation
  | ConnectionFailure
  | BulkWriteError "nat list"

text \<open>
  \<^verbatim>\<open>range(start, stop, step)\<close> for a step that is not zero: it counts up for a
  positive step and down for a negative one. A zero step raises \<open>ValueError\<close> in
  Python; the callers below check for it before they call \<open>py_range\<close>.
\<close>

function py_range :: "int \<Rightarrow> int \<Rightarrow> int \<Rightarrow> int list" where
  "py_range start stop step =
     (if 0 < step \<and> start < stop then start # py_range (start + step) stop step
      else if step < 0 \<and> stop < start then start # py_range (start + step) stop step
      else [])"
  by pat_completeness auto
termination
  by (relation "measure (\<lambda>(start, stop, step).
        nat (if 0 < step then stop - start else start - stop))") auto

declare py_range.simps [simp del]

text \<open>
  \<^verbatim>\<open>xs[a:b]\<close>: a negative bound counts from the end, and both bounds are clamped
  to the list.
\<close>

definition py_clamp :: "int \<Rightarrow> int \<Rightarrow> int" where
  "py_clamp n i = (if i < 0 then max 0 (n + i) else min i n)"

definition py_slice :: "'a list \<Rightarrow> int \<Rightarrow> int \<Rightarrow> 'a list" where
  "py_slice xs a b =
     (let n = int (length xs); lo = py_clamp n a; hi = py_clamp n b
      in take (nat (hi - lo)) (drop (nat lo) xs))"

section \<open>chunked\<close>

text \<open>
  \<^verbatim>\<open>
  def chunked(items, size):
      for start in range(0, len(items), size):
          yield items[start : start + size]
  \<close>
  The generator has no effect of its own, so the model returns the list of all the
  chunks it yields, or the \<open>ValueError\<close> that \<^verbatim>\<open>range\<close> raises for a
  zero step, before the first chunk. The parameter \<^verbatim>\<open>size\<close> is \<open>sz\<close> here.
\<close>

definition chunked :: "'a list \<Rightarrow> int \<Rightarrow> error + 'a list list" where
  "chunked items sz =
     (if sz = 0 then Inl ValueError
      else Inr (map (\<lambda>start. py_slice items start (start + sz))
                    (py_range 0 (int (length items)) sz)))"

text \<open>The chunks that start at \<open>start\<close> or later: the rest of the generator.\<close>

definition chunks_from :: "'a list \<Rightarrow> int \<Rightarrow> int \<Rightarrow> 'a list list" where
  "chunks_from items sz start =
     map (\<lambda>start. py_slice items start (start + sz))
         (py_range start (int (length items)) sz)"

section \<open>fetch\_us\_equity\_symbols\<close>

text \<open>
  The request body built in each iteration of the loop. The query is a nested
  dictionary of operators and operands.
\<close>

datatype operand = Leaf string | Node string "operand list"

record payload =
  size_field :: int
  offset_field :: int
  sortField :: string
  sortType :: string
  quoteType :: string
  query :: operand

definition make_payload :: "int \<Rightarrow> int \<Rightarrow> payload" where
  "make_payload page_size offset =
     \<lparr> size_field = page_size, offset_field = offset,
       sortField = ''marketCap'', sortType = ''DESC'', quoteType = ''EQUITY'',
       query = Node ''AND'' [Node ''EQ'' [Leaf ''region'', Leaf ''us'']] \<rparr>"

text \<open>
  The response of the screener, as far as the program reads it: a dictionary that may
  have a key \<^verbatim>\<open>result\<close>, whose first entry may have a key \<^verbatim>\<open>quotes\<close>, a list
  of dictionaries that may have a key \<^verbatim>\<open>symbol\<close>. \<open>None\<close> is an absent key.
\<close>

record quote =
  quote_symbol :: "string option"

record result_entry =
  quotes_field :: "quote list option"

record response =
  result_field :: "result_entry list option"

text \<open>
  The screener endpoint is outside the program. \<open>server n p\<close> is what
  \<^verbatim>\<open>misc._make_request\<close> gives for the request body \<open>p\<close> when \<open>n\<close> requests
  were made before it: a response, or the exception it raises.
\<close>

type_synonym server = "nat \<Rightarrow> payload \<Rightarrow> error + response"

text \<open>\<^verbatim>\<open>response.get("result", [])\<close> and \<^verbatim>\<open>results[0].get("quotes", [])\<close>.\<close>

definition get_results :: "response \<Rightarrow> result_entry list" where
  "get_results r = (case result_field r of None \<Rightarrow> [] | Some rs \<Rightarrow> rs)"

definition get_quotes :: "result_entry \<Rightarrow> quote list" where
  "get_quotes e = (case quotes_field e of None \<Rightarrow> [] | Some qs \<Rightarrow> qs)"

text \<open>\<^verbatim>\<open>[quote["symbol"] for quote in quotes if "symbol" in quote]\<close>\<close>

definition new_symbols :: "quote list \<Rightarrow> string list" where
  "new_symbols quotes =
     map (\<lambda>q. the (quote_symbol q)) (filter (\<lambda>q. quote_symbol q \<noteq> None) quotes)"

text \<open>
  The \<^verbatim>\<open>while True\<close> loop, lines 39 to 81. The state is \<open>symbols\<close> and
  \<open>offset\<close>; \<open>n\<close> counts the requests made so far. The result is the list at the
  \<^verbatim>\<open>break\<close>, or the exception of the request; \<open>None\<close> is a loop that never ends.
\<close>

partial_function (option) fetch_loop ::
  "server \<Rightarrow> int \<Rightarrow> int option \<Rightarrow> string list \<Rightarrow> int \<Rightarrow> nat \<Rightarrow> (error + string list) option"
where
  "fetch_loop server page_size max_symbols symbols offset n =
     (if (case max_symbols of None \<Rightarrow> False | Some m \<Rightarrow> m \<le> int (length symbols))
      then Some (Inr symbols)
      else case server n (make_payload page_size offset) of
        Inl e \<Rightarrow> Some (Inl e)
      | Inr resp \<Rightarrow>
         (case get_results resp of
            [] \<Rightarrow> Some (Inr symbols)
          | r0 # _ \<Rightarrow>
             (if get_quotes r0 = [] then Some (Inr symbols)
              else if int (length (get_quotes r0)) < page_size
                then Some (Inr (symbols @ new_symbols (get_quotes r0)))
                else fetch_loop server page_size max_symbols
                       (symbols @ new_symbols (get_quotes r0)) (offset + page_size) (Suc n))))"

text \<open>Lines 83 to 85: \<^verbatim>\<open>symbols[:max_symbols]\<close> when a cap is given.\<close>

definition truncate_symbols :: "int option \<Rightarrow> string list \<Rightarrow> string list" where
  "truncate_symbols max_symbols symbols =
     (case max_symbols of None \<Rightarrow> symbols | Some m \<Rightarrow> py_slice symbols 0 m)"

definition fetch_us_equity_symbols ::
  "server \<Rightarrow> int \<Rightarrow> int option \<Rightarrow> (error + string list) option" where
  "fetch_us_equity_symbols server page_size max_symbols =
     map_option (map_sum id (truncate_symbols max_symbols))
       (fetch_loop server page_size max_symbols [] 0 0)"

subsection \<open>Pages of the screener\<close>

text \<open>
  The request number \<open>k\<close> of the loop (counted from 0) has the offset
  \<open>k * page_size\<close>. It ends the loop when it raises, or when its page is empty or
  shorter than \<open>page_size\<close>.
\<close>

definition page_stops :: "server \<Rightarrow> int \<Rightarrow> nat \<Rightarrow> bool" where
  "page_stops server page_size k =
     (case server k (make_payload page_size (int k * page_size)) of
        Inl e \<Rightarrow> True
      | Inr resp \<Rightarrow>
         (case get_results resp of
            [] \<Rightarrow> True
          | r0 # _ \<Rightarrow> get_quotes r0 = [] \<or> int (length (get_quotes r0)) < page_size))"

text \<open>The entries of the page that answers request number \<open>k\<close>.\<close>

definition page_quotes :: "server \<Rightarrow> int \<Rightarrow> nat \<Rightarrow> quote list" where
  "page_quotes server page_size k =
     (case server k (make_payload page_size (int k * page_size)) of
        Inl e \<Rightarrow> []
      | Inr resp \<Rightarrow> (case get_results resp of [] \<Rightarrow> [] | r0 # _ \<Rightarrow> get_quotes r0))"

text \<open>The exception of request number \<open>k\<close>, if it raises.\<close>

definition page_error :: "server \<Rightarrow> int \<Rightarrow> nat \<Rightarrow> error option" where
  "page_error server page_size k =
     (case server k (make_payload page_size (int k * page_size)) of
        Inl e \<Rightarrow> Some e
      | Inr resp \<Rightarrow> None)"

text \<open>
  The tokens that are present in the entries of the pages of the requests before
  request number \<open>k\<close>, page after page and in the order of the entries.
\<close>

definition tokens_upto :: "server \<Rightarrow> int \<Rightarrow> nat \<Rightarrow> string list" where
  "tokens_upto server page_size k =
     concat (map (\<lambda>i. List.map_filter quote_symbol (page_quotes server page_size i)) [0..<k])"

text \<open>The test of line 40 lets the loop go on: no cap, or fewer symbols than the cap.\<close>

definition cap_open :: "int option \<Rightarrow> string list \<Rightarrow> bool" where
  "cap_open max_symbols symbols =
     (case max_symbols of None \<Rightarrow> True | Some m \<Rightarrow> int (length symbols) < m)"

text \<open>
  What the specification says is appended for a page: the tokens that are present
  and not empty.
\<close>

definition spec_appended_tokens :: "quote list \<Rightarrow> string list" where
  "spec_appended_tokens quotes =
     filter (\<lambda>s. s \<noteq> []) (List.map_filter quote_symbol quotes)"

text \<open>Concrete servers: a response with one page of entries, given by their tokens.\<close>

definition page_of :: "string option list \<Rightarrow> error + response" where
  "page_of tokens =
     Inr \<lparr> result_field =
             Some [\<lparr> quotes_field = Some (map (\<lambda>t. \<lparr> quote_symbol = t \<rparr>) tokens) \<rparr>] \<rparr>"

definition example_server :: server where
  "example_server n p =
     (if offset_field p = 0 then page_of [Some ''A'', Some ''B'']
      else if offset_field p = 2 then page_of [Some ''C'']
      else page_of [])"

definition blank_token_server :: server where
  "blank_token_server n p = page_of [Some ''A'', None, Some '''']"

section \<open>upsert\_company\_data\<close>

text \<open>
  Values stored in a document: strings, numbers, timestamps and nested dictionaries.
  The detail payload of a symbol is such a value and is never inspected;
  \<open>Dict []\<close> is the empty dictionary \<^verbatim>\<open>{}\<close>.
\<close>

datatype val = Str string | Num int | Time int | Dict "(string \<times> val) list"

type_synonym document = "string \<rightharpoonup> val"

type_synonym collection = "document list"

text \<open>
  \<^verbatim>\<open>UpdateOne(filter, {"$set": fields}, upsert=...)\<close>: the three arguments the
  program gives.
\<close>

record update_one =
  filter_doc :: "(string \<times> val) list"
  set_doc :: "(string \<times> val) list"
  upsert :: bool

text \<open>Lines 107 to 117: the operation built for one symbol.\<close>

definition make_update :: "string \<Rightarrow> int \<Rightarrow> val \<Rightarrow> update_one" where
  "make_update symbol timestamp symbol_data =
     \<lparr> filter_doc = [(''symbol'', Str symbol)],
       set_doc = [(''symbol'', Str symbol), (''last_updated'', Time timestamp),
                  (''data'', symbol_data)],
       upsert = True \<rparr>"

text \<open>
  Lines 104 to 118: the loop over the symbols of the batch, with
  \<^verbatim>\<open>data.get(symbol, {})\<close> for the detail payload.
\<close>

definition symbol_data_of :: "(string \<rightharpoonup> val) \<Rightarrow> string \<Rightarrow> val" where
  "symbol_data_of data symbol = (case data symbol of None \<Rightarrow> Dict [] | Some d \<Rightarrow> d)"

definition build_operations :: "string list \<Rightarrow> (string \<rightharpoonup> val) \<Rightarrow> int \<Rightarrow> update_one list" where
  "build_operations batch_symbols data timestamp =
     map (\<lambda>symbol. make_update symbol timestamp (symbol_data_of data symbol)) batch_symbols"

subsection \<open>The document store\<close>

text \<open>
  Modelled from the spec: the persistent store (pymongo's \<^verbatim>\<open>bulk_write\<close> and the
  MongoDB server behind it) is an external collaborator whose code is not part of the
  repository. Section 6 describes it as a keyed document collection with an unordered
  bulk upsert-by-key operation, and section 4.4 says that with unordered execution one
  operation's failure does not prevent the execution of the others and that the call
  raises only after attempting all; section 7(c) adds the failure of the call itself.
  A collection is the list of its documents, a
  document a map from top-level field names to values (the store-assigned
  \<^verbatim>\<open>_id\<close> is left out). A filter matches a document that has each of its fields
  with the given value.
\<close>

definition matches :: "(string \<times> val) list \<Rightarrow> document \<Rightarrow> bool" where
  "matches flt d = list_all (\<lambda>(k, v). d k = Some v) flt"

text \<open>
  Modelled from the spec: one update operation on the collection. The operator
  \<^verbatim>\<open>$set\<close> that the program sends assigns the listed fields of the first matching
  document; with \<^verbatim>\<open>upsert\<close> and no matching document, a document made of the
  filter's fields and the assigned fields is inserted.
\<close>

fun update_one_apply :: "update_one \<Rightarrow> collection \<Rightarrow> collection" where
  "update_one_apply u [] =
     (if upsert u then [map_of (filter_doc u) ++ map_of (set_doc u)] else [])"
| "update_one_apply u (d # ds) =
     (if matches (filter_doc u) d then (d ++ map_of (set_doc u)) # ds
      else d # update_one_apply u ds)"

text \<open>
  Modelled from the spec: the operations of one bulk write, in the order of the list.
  \<open>rejects\<close> says which operations the store refuses (a constraint on a single
  document, such as a validation rule); \<open>i\<close> is the index of the first operation of
  the list. An ordered bulk write stops at the first rejected operation; an unordered
  one goes on. The result is the collection and the indexes of the rejected operations.
\<close>

fun bulk_write_ops ::
  "(update_one \<Rightarrow> bool) \<Rightarrow> bool \<Rightarrow> update_one list \<Rightarrow> nat \<Rightarrow> collection
     \<Rightarrow> collection \<times> nat list" where
  "bulk_write_ops rejects ordered [] i coll = (coll, [])"
| "bulk_write_ops rejects ordered (u # us) i coll =
     (if rejects u then
        (if ordered then (coll, [i])
         else (case bulk_write_ops rejects ordered us (Suc i) coll of
                 (coll', errs) \<Rightarrow> (coll', i # errs)))
      else bulk_write_ops rejects ordered us (Suc i) (update_one_apply u coll))"

text \<open>
  Modelled from the spec: \<^verbatim>\<open>collection.bulk_write(operations, ordered=...)\<close>. It
  refuses an empty list of operations. The call itself can fail (section 7(c), a
  persistence error such as a lost connection): \<open>fail\<close> is the exception it raises
  then, and nothing is written. Otherwise the operations are executed, and
  \<open>BulkWriteError\<close> is raised afterwards when some were rejected. The result is the
  collection afterwards and the exception raised, if any.
\<close>

definition bulk_write ::
  "error option \<Rightarrow> (update_one \<Rightarrow> bool) \<Rightarrow> collection \<Rightarrow> update_one list \<Rightarrow> bool
     \<Rightarrow> collection \<times> error option" where
  "bulk_write fail rejects coll operations ordered =
     (if operations = [] then (coll, Some InvalidOperation)
      else case fail of
             Some e \<Rightarrow> (coll, Some e)
           | None \<Rightarrow>
              (case bulk_write_ops rejects ordered operations 0 coll of
                 (coll', errs) \<Rightarrow>
                   (coll', if errs = [] then None else Some (BulkWriteError errs))))"

subsection \<open>The batches\<close>

text \<open>
  What the function meets outside: the detail endpoint
  (\<^verbatim>\<open>Ticker(batch_symbols).get_modules(modules)\<close>, a mapping or an exception, for
  the batch of a given number), the clock (\<open>utcnow env r\<close> is what
  \<^verbatim>\<open>datetime.utcnow()\<close> returns when it is read for the \<open>r\<close>-th time, counted
  from 0), the failure of the bulk write call of the batch of a given number, and the
  store's rejections.
\<close>

record env =
  get_modules :: "nat \<Rightarrow> string list \<Rightarrow> string list \<Rightarrow> error + (string \<rightharpoonup> val)"
  utcnow :: "nat \<Rightarrow> int"
  write_fails :: "nat \<Rightarrow> error option"
  rejects :: "update_one \<Rightarrow> bool"

text \<open>
  What the function changes outside: the collection, the number of readings of the
  clock so far, and the bulk writes called so far, each as the list of operations it
  was given, oldest first.
\<close>

record world =
  docs :: collection
  clock_reads :: nat
  bulk_writes :: "update_one list list"

text \<open>
  Lines 101 to 127, the body of the loop once the details are fetched and the clock is
  read: build the operations and, if there are any, send them in one unordered bulk
  write.
\<close>

definition upsert_batch ::
  "error option \<Rightarrow> (update_one \<Rightarrow> bool) \<Rightarrow> collection \<Rightarrow> string list \<Rightarrow> (string \<rightharpoonup> val) \<Rightarrow> int
     \<Rightarrow> collection \<times> error option" where
  "upsert_batch fail rej coll batch_symbols data timestamp =
     (let operations = build_operations batch_symbols data timestamp
      in if operations \<noteq> [] then bulk_write fail rej coll operations False
         else (coll, None))"

text \<open>
  Lines 96 to 127: the loop over the batches. In each batch the details are fetched,
  then the clock is read, once (line 102), then the batch is built and written with
  that reading. The bulk write that \<open>upsert_batch\<close> calls is recorded with the
  operations it is given. An exception of the detail fetch or of the bulk write is not
  caught: it ends the loop, with the collection as it is then.
\<close>

fun upsert_batches ::
  "env \<Rightarrow> string list \<Rightarrow> nat \<Rightarrow> string list list \<Rightarrow> world \<Rightarrow> world \<times> error option" where
  "upsert_batches env modules batch_index [] w = (w, None)"
| "upsert_batches env modules batch_index (batch_symbols # rest) w =
     (case get_modules env batch_index batch_symbols modules of
        Inl e \<Rightarrow> (w, Some e)
      | Inr data \<Rightarrow>
         (let timestamp = utcnow env (clock_reads w);
              operations = build_operations batch_symbols data timestamp;
              w1 = w \<lparr> clock_reads := Suc (clock_reads w),
                       bulk_writes := bulk_writes w @
                         (if operations \<noteq> [] then [operations] else []) \<rparr>
          in case upsert_batch (write_fails env batch_index) (rejects env) (docs w)
                    batch_symbols data timestamp of
               (coll', Some e) \<Rightarrow> (w1 \<lparr> docs := coll' \<rparr>, Some e)
             | (coll', None) \<Rightarrow>
                 upsert_batches env modules (Suc batch_index) rest (w1 \<lparr> docs := coll' \<rparr>)))"

text \<open>
  Line 95 divides by \<open>batch_size\<close> when there are symbols; then the batches of
  \<open>chunked\<close> are numbered from 1.
\<close>

definition upsert_company_data ::
  "env \<Rightarrow> world \<Rightarrow> string list \<Rightarrow> string list \<Rightarrow> int \<Rightarrow> world \<times> error option" where
  "upsert_company_data env w symbols modules batch_size =
     (if symbols \<noteq> [] \<and> batch_size = 0 then (w, Some ZeroDivisionError)
      else case chunked symbols batch_size of
             Inl e \<Rightarrow> (w, Some e)
           | Inr batches \<Rightarrow> upsert_batches env modules 1 batches w)"

subsection \<open>Reading the collection\<close>

text \<open>The documents keyed by a symbol, and how many there are.\<close>

definition keyed_by :: "string \<Rightarrow> document \<Rightarrow> bool" where
  "keyed_by symbol d = (d ''symbol'' = Some (Str symbol))"

definition count_key :: "collection \<Rightarrow> string \<Rightarrow> nat" where
  "count_key coll symbol = length (filter (keyed_by symbol) coll)"

subsection \<open>What a batch leaves in the collection\<close>

text \<open>
  The operations of a batch for the symbols \<open>ss\<close>, applied one after the other.
\<close>

definition apply_symbols :: "(string \<rightharpoonup> val) \<Rightarrow> int \<Rightarrow> string list \<Rightarrow> collection \<Rightarrow> collection" where
  "apply_symbols data timestamp ss coll =
     fold (\<lambda>s. update_one_apply (make_update s timestamp (symbol_data_of data s))) ss coll"

text \<open>The indexes of the operations that the store rejects.\<close>

definition rejected_indexes :: "(update_one \<Rightarrow> bool) \<Rightarrow> update_one list \<Rightarrow> nat list" where
  "rejected_indexes rej operations =
     filter (\<lambda>k. rej (operations ! k)) [0..<length operations]"

text \<open>
  The write for a symbol is committed: the document that a query by the symbol finds
  has the symbol, the timestamp of the batch and the detail payload of the symbol.
\<close>

definition committed :: "(string \<rightharpoonup> val) \<Rightarrow> int \<Rightarrow> collection \<Rightarrow> string \<Rightarrow> bool" where
  "committed data timestamp coll s =
     (case List.find (keyed_by s) coll of
        None \<Rightarrow> False
      | Some doc \<Rightarrow>
          doc ''symbol'' = Some (Str s) \<and>
          doc ''last_updated'' = Some (Time timestamp) \<and>
          doc ''data'' = Some (symbol_data_of data s))"

subsection \<open>Concrete inputs\<close>

text \<open>
  A detail mapping that knows \<open>''A''\<close> and \<open>''C''\<close> only; a store that rejects
  nothing and one that rejects the operation for \<open>''B''\<close>; a clock that advances at
  each reading; an environment where nothing fails, one whose store rejects
  \<open>''B''\<close>, one whose detail fetch fails for the second batch and one whose first bulk
  write fails as a call; a stored document with a field of its own, and a collection
  with two documents for \<open>''A''\<close>.
\<close>

definition example_data :: "string \<rightharpoonup> val" where
  "example_data = map_of [(''A'', Dict [(''x'', Num 1)]), (''C'', Dict [(''x'', Num 2)])]"

definition rejects_none :: "update_one \<Rightarrow> bool" where
  "rejects_none u = False"

definition rejects_B :: "update_one \<Rightarrow> bool" where
  "rejects_B u = (filter_doc u = [(''symbol'', Str ''B'')])"

definition example_env :: env where
  "example_env =
     \<lparr> get_modules = (\<lambda>batch_index batch_symbols modules. Inr example_data),
       utcnow = (\<lambda>r. 100 + int r),
       write_fails = (\<lambda>batch_index. None),
       rejects = rejects_none \<rparr>"

definition failing_env :: env where
  "failing_env = example_env \<lparr> rejects := rejects_B \<rparr>"

definition down_env :: env where
  "down_env =
     example_env \<lparr> get_modules := (\<lambda>batch_index batch_symbols modules.
        if batch_index = 2 then Inl (TransportError ''down'') else Inr example_data) \<rparr>"

definition lost_env :: env where
  "lost_env =
     example_env \<lparr> write_fails := (\<lambda>batch_index.
        if batch_index = 1 then Some ConnectionFailure else None) \<rparr>"

definition empty_world :: world where
  "empty_world = \<lparr> docs = [], clock_reads = 0, bulk_writes = [] \<rparr>"

definition noted_doc :: document where
  "noted_doc = [''symbol'' \<mapsto> Str ''A'', ''note'' \<mapsto> Str ''keep'']"

definition twin_docs :: collection where
  "twin_docs = [noted_doc, [''symbol'' \<mapsto> Str ''A'']]"

definition first_batch_world :: world where
  "first_batch_world =
     \<lparr> docs = apply_symbols example_data 100 [''A'', ''B''] [],
       clock_reads = 1,
       bulk_writes = [build_operations [''A'', ''B''] example_data 100] \<rparr>"

section \<open>Properties of chunked\<close>

lemma py_range_up:
  "0 < step \<Longrightarrow> py_range start stop step =
     (if start < stop then start # py_range (start + step) stop step else [])"
  by (subst py_range.simps) simp

lemma py_slice_chunk:
  assumes "0 \<le> start" "0 < sz"
  shows "py_slice items start (start + sz) = take (nat sz) (drop (nat start) items)"
proof (cases "start < int (length items)")
  case True
  with assms show ?thesis
    by (auto simp: py_slice_def py_clamp_def Let_def min_def)
next
  case False
  with assms show ?thesis
    by (auto simp: py_slice_def py_clamp_def Let_def min_def)
qed

lemma chunks_from_unfold:
  assumes "0 < sz" "0 \<le> start"
  shows "chunks_from items sz start =
     (if start < int (length items)
      then take (nat sz) (drop (nat start) items) # chunks_from items sz (start + sz)
      else [])"
  using assms by (simp add: chunks_from_def py_range_up [of sz start] py_slice_chunk)

lemma chunked_chunks_from: "0 < sz \<Longrightarrow> chunked items sz = Inr (chunks_from items sz 0)"
  by (simp add: chunked_def chunks_from_def)

lemma chunks_from_concat:
  "0 < sz \<Longrightarrow> 0 \<le> start \<Longrightarrow> concat (chunks_from items sz start) = drop (nat start) items"
proof (induction start "int (length items)" sz rule: py_range.induct)
  case (1 start sz)
  show ?case
  proof (cases "start < int (length items)")
    case True
    have "concat (chunks_from items sz (start + sz)) = drop (nat (start + sz)) items"
      using True "1.prems" "1.hyps"(1) by simp
    moreover have "nat (start + sz) = nat sz + nat start"
      using "1.prems" by (simp add: nat_add_distrib)
    ultimately show ?thesis
      using True "1.prems"
      by (simp add: chunks_from_unfold [of sz start] drop_drop [symmetric] del: drop_drop)
  next
    case False
    with "1.prems" show ?thesis
      by (simp add: chunks_from_unfold [of sz start])
  qed
qed

lemma chunks_from_empty_iff:
  "0 < sz \<Longrightarrow> 0 \<le> start \<Longrightarrow>
     chunks_from items sz start = [] \<longleftrightarrow> int (length items) \<le> start"
  by (simp add: chunks_from_unfold [of sz start])

lemma chunks_from_lengths:
  "0 < sz \<Longrightarrow> 0 \<le> start \<Longrightarrow>
     (\<forall>i. Suc i < length (chunks_from items sz start) \<longrightarrow>
          length (chunks_from items sz start ! i) = nat sz) \<and>
     (chunks_from items sz start \<noteq> [] \<longrightarrow>
          1 \<le> length (last (chunks_from items sz start)) \<and>
          length (last (chunks_from items sz start)) \<le> nat sz)"
proof (induction start "int (length items)" sz rule: py_range.induct)
  case (1 start sz)
  show ?case
  proof (cases "start < int (length items)")
    case True
    let ?rest = "chunks_from items sz (start + sz)"
    let ?c = "take (nat sz) (drop (nat start) items)"
    have unf: "chunks_from items sz start = ?c # ?rest"
      using True "1.prems" by (simp add: chunks_from_unfold [of sz start])
    have IH: "(\<forall>i. Suc i < length ?rest \<longrightarrow> length (?rest ! i) = nat sz) \<and>
       (?rest \<noteq> [] \<longrightarrow> 1 \<le> length (last ?rest) \<and> length (last ?rest) \<le> nat sz)"
      using True "1.prems" "1.hyps"(1) by simp
    have rest_iff: "?rest = [] \<longleftrightarrow> int (length items) \<le> start + sz"
      using "1.prems" by (simp add: chunks_from_empty_iff)
    have len_c: "1 \<le> length ?c \<and> length ?c \<le> nat sz"
      using True "1.prems" by auto
    have full: "?rest \<noteq> [] \<Longrightarrow> length ?c = nat sz"
      using rest_iff True "1.prems" by auto
    have a: "\<forall>i. Suc i < length (?c # ?rest) \<longrightarrow> length ((?c # ?rest) ! i) = nat sz"
    proof (intro allI impI)
      fix i assume i: "Suc i < length (?c # ?rest)"
      show "length ((?c # ?rest) ! i) = nat sz"
      proof (cases i)
        case 0
        with i have "?rest \<noteq> []" by auto
        with 0 full show ?thesis by simp
      next
        case (Suc j)
        with i IH show ?thesis by simp
      qed
    qed
    have b: "1 \<le> length (last (?c # ?rest)) \<and> length (last (?c # ?rest)) \<le> nat sz"
      using IH len_c by (cases "?rest = []") simp_all
    from a b show ?thesis unfolding unf by simp
  next
    case False
    with "1.prems" show ?thesis by (simp add: chunks_from_unfold [of sz start])
  qed
qed

lemma chunked_example:
  "chunked [''A'', ''B'', ''C''] 2 = Inr [[''A'', ''B''], [''C'']]"
  by (simp add: chunked_def py_range.simps py_slice_def py_clamp_def)

text \<open>
  Claim C2. For every list \<open>items\<close> and every positive \<open>sz\<close>, \<open>chunked\<close> returns
  chunks whose concatenation is \<open>items\<close>, in order; every chunk but the last has
  length \<open>sz\<close>; the last chunk has a length from 1 to \<open>sz\<close>; and there is no chunk
  exactly when \<open>items\<close> is empty.
\<close>

theorem chunked_partition:
  assumes "0 < sz"
  shows "\<exists>cs. chunked items sz = Inr cs \<and> concat cs = items \<and>
           (\<forall>i. Suc i < length cs \<longrightarrow> length (cs ! i) = nat sz) \<and>
           (cs \<noteq> [] \<longrightarrow> 1 \<le> length (last cs) \<and> length (last cs) \<le> nat sz) \<and>
           (cs = [] \<longleftrightarrow> items = [])"
proof -
  have "concat (chunks_from items sz 0) = items"
    using assms chunks_from_concat [of sz 0 items] by simp
  moreover have "chunks_from items sz 0 = [] \<longleftrightarrow> items = []"
    using assms chunks_from_empty_iff [of sz 0 items] by simp
  ultimately show ?thesis
    using chunked_chunks_from [OF assms, of items] chunks_from_lengths [of sz 0 items] assms
    by simp
qed

theorem chunked_partition_witness:
  "(0::int) < 2 \<and>
   chunked [''A'', ''B'', ''C''] 2 = Inr [[''A'', ''B''], [''C'']] \<and>
   (\<exists>cs. chunked [''A'', ''B'', ''C''] 2 = Inr cs \<and> concat cs = [''A'', ''B'', ''C''] \<and>
      (\<forall>i. Suc i < length cs \<longrightarrow> length (cs ! i) = nat 2) \<and>
      (cs \<noteq> [] \<longrightarrow> 1 \<le> length (last cs) \<and> length (last cs) \<le> nat 2) \<and>
      (cs = [] \<longleftrightarrow> [''A'', ''B'', ''C''] = []))"
proof -
  have h: "(0::int) < 2" by simp
  show ?thesis
    using h chunked_partition [OF h, of "[''A'', ''B'', ''C'']"] chunked_example
    by blast
qed

section \<open>Properties of fetch\_us\_equity\_symbols\<close>

lemma capped_vs_uncapped:
  assumes ret: "fetch_loop server ps None syms off n = Some (Inr U)" and m: "0 \<le> m"
  shows "(\<exists>t. U = syms @ t) \<and>
         (\<exists>r. fetch_loop server ps (Some m) syms off n = Some (Inr r) \<and>
              take (nat m) r = take (nat m) U)"
proof -
  let ?P = "\<lambda>server ps (mx :: int option) syms off n (res :: error + string list).
     mx = None \<longrightarrow> (\<forall>U. res = Inr U \<longrightarrow>
       (\<exists>t. U = syms @ t) \<and>
       (\<exists>r. fetch_loop server ps (Some m) syms off n = Some (Inr r) \<and>
            take (nat m) r = take (nat m) U))"
  have "?P server ps None syms off n (Inr U)"
  proof (rule fetch_loop.raw_induct [where P = ?P, OF _ ret])
    fix f :: "server \<Rightarrow> int \<Rightarrow> int option \<Rightarrow> string list \<Rightarrow> int \<Rightarrow> nat \<Rightarrow> (error + string list) option"
    fix server ps mx syms off n res
    assume IH: "\<And>server ps mx syms off n res. f server ps mx syms off n = Some res \<Longrightarrow>
                  ?P server ps mx syms off n res"
    assume eq: "(if case mx of None \<Rightarrow> False | Some m \<Rightarrow> m \<le> int (length syms)
      then Some (Inr syms)
      else case server n (make_payload ps off) of
           Inl e \<Rightarrow> Some (Inl e)
           | Inr resp \<Rightarrow>
               case get_results resp of [] \<Rightarrow> Some (Inr syms)
               | r0 # x \<Rightarrow>
                   if get_quotes r0 = [] then Some (Inr syms)
                   else if int (length (get_quotes r0)) < ps
                        then Some (Inr (syms @ new_symbols (get_quotes r0)))
                        else f server ps mx
                              (syms @ new_symbols (get_quotes r0))
                              (off + ps) (Suc n)) = Some res"
    show "?P server ps mx syms off n res"
    proof (intro impI allI)
      fix U assume mx: "mx = None" and res: "res = Inr U"
      show "(\<exists>t. U = syms @ t) \<and>
         (\<exists>r. fetch_loop server ps (Some m) syms off n = Some (Inr r) \<and>
              take (nat m) r = take (nat m) U)"
      proof (cases "server n (make_payload ps off)")
        case (Inl e)
        with eq mx res show ?thesis by simp
      next
        case (Inr resp)
        show ?thesis
        proof (cases "get_results resp")
          case Nil
          with eq mx res Inr have "U = syms" by simp
          with Inr Nil show ?thesis
            by (subst fetch_loop.simps) simp
        next
          case (Cons r0 rest)
          let ?syms' = "syms @ new_symbols (get_quotes r0)"
          consider (empty) "get_quotes r0 = []"
            | (short) "get_quotes r0 \<noteq> []" "int (length (get_quotes r0)) < ps"
            | (more) "get_quotes r0 \<noteq> []" "\<not> int (length (get_quotes r0)) < ps"
            by blast
          then show ?thesis
          proof cases
            case empty
            with eq mx res Inr Cons have "U = syms" by simp
            with Inr Cons empty show ?thesis
              by (subst fetch_loop.simps) simp
          next
            case short
            with eq mx res Inr Cons have U: "U = ?syms'" by simp
            show ?thesis
            proof (cases "m \<le> int (length syms)")
              case True
              then have "fetch_loop server ps (Some m) syms off n = Some (Inr syms)"
                by (subst fetch_loop.simps) simp
              with True U show ?thesis by simp
            next
              case False
              then have "fetch_loop server ps (Some m) syms off n = Some (Inr ?syms')"
                using Inr Cons short by (subst fetch_loop.simps) simp
              with U show ?thesis by simp
            qed
          next
            case more
            with eq mx res Inr Cons
            have "f server ps None ?syms' (off + ps) (Suc n) = Some (Inr U)" by simp
            from IH [OF this]
            obtain t r where t: "U = ?syms' @ t"
              and r: "fetch_loop server ps (Some m) ?syms' (off + ps) (Suc n) = Some (Inr r)"
              and tk: "take (nat m) r = take (nat m) U"
              by blast
            show ?thesis
            proof (cases "m \<le> int (length syms)")
              case True
              then have "fetch_loop server ps (Some m) syms off n = Some (Inr syms)"
                by (subst fetch_loop.simps) simp
              with True t show ?thesis by simp
            next
              case False
              then have "fetch_loop server ps (Some m) syms off n = Some (Inr r)"
                using Inr Cons more r by (subst fetch_loop.simps) simp
              with t tk show ?thesis by simp
            qed
          qed
        qed
      qed
    qed
  qed
  then show ?thesis by simp
qed

lemma fetch_loop_terminates:
  "page_stops server ps k \<Longrightarrow> n \<le> k \<Longrightarrow>
     \<exists>r. fetch_loop server ps mx syms (int n * ps) n = Some r"
proof (induction "k - n" arbitrary: n syms)
  case 0
  then have nk: "n = k" by simp
  show ?case
    using "0.prems"(1) unfolding nk
    by (subst fetch_loop.simps) (auto simp: page_stops_def split: sum.splits list.splits option.splits)
next
  case (Suc d)
  have step: "int n * ps + ps = int (Suc n) * ps" by (simp add: algebra_simps)
  have "\<exists>r. fetch_loop server ps mx (syms @ ext) (int (Suc n) * ps) (Suc n) = Some r" for ext
    using Suc.hyps(1) [of "Suc n"] Suc.hyps(2) Suc.prems by simp
  then show ?case
    by (subst fetch_loop.simps) (auto simp: step split: sum.splits list.splits option.splits)
qed

lemma py_slice_prefix: "0 \<le> m \<Longrightarrow> py_slice xs 0 m = take (nat m) xs"
  by (auto simp: py_slice_def py_clamp_def Let_def min_def)

lemma example_server_unbounded:
  "fetch_us_equity_symbols example_server 2 None = Some (Inr [''A'', ''B'', ''C''])"
  by (simp add: fetch_us_equity_symbols_def fetch_loop.simps example_server_def page_of_def
      make_payload_def get_results_def get_quotes_def new_symbols_def truncate_symbols_def)

lemma example_server_stops: "page_stops example_server 2 1"
  by (simp add: page_stops_def example_server_def page_of_def
      make_payload_def get_results_def get_quotes_def)

lemma blank_token_run:
  "fetch_us_equity_symbols blank_token_server 5 None = Some (Inr [''A'', ''''])"
  by (simp add: fetch_us_equity_symbols_def fetch_loop.simps blank_token_server_def page_of_def
      make_payload_def get_results_def get_quotes_def new_symbols_def truncate_symbols_def)

lemma fetch_result_iff:
  "fetch_us_equity_symbols server ps mx = Some (Inr r) \<longleftrightarrow>
     (\<exists>r0. fetch_loop server ps mx [] 0 0 = Some (Inr r0) \<and> r = truncate_symbols mx r0)"
proof (cases "fetch_loop server ps mx [] 0 0")
  case None
  then show ?thesis by (simp add: fetch_us_equity_symbols_def)
next
  case (Some res)
  then show ?thesis by (cases res) (auto simp: fetch_us_equity_symbols_def)
qed

text \<open>
  Claim C1. For every page size and every cap \<open>m \<ge> 0\<close>: the list returned with
  the cap has at most \<open>m\<close> elements; and when the enumeration without a cap returns
  \<open>U\<close>, the enumeration with the cap returns the first \<open>m\<close> elements of \<open>U\<close>
  in their order, which are exactly \<open>m\<close> elements when \<open>U\<close> has more than \<open>m\<close>.
\<close>

theorem fetch_cap_correct:
  assumes "0 \<le> m"
  shows "(\<forall>r. fetch_us_equity_symbols server ps (Some m) = Some (Inr r) \<longrightarrow> int (length r) \<le> m) \<and>
         (\<forall>U. fetch_us_equity_symbols server ps None = Some (Inr U) \<longrightarrow>
            fetch_us_equity_symbols server ps (Some m) = Some (Inr (take (nat m) U)) \<and>
            (m < int (length U) \<longrightarrow> int (length (take (nat m) U)) = m))"
proof (intro conjI allI impI)
  fix r assume "fetch_us_equity_symbols server ps (Some m) = Some (Inr r)"
  then obtain r0 where "r = py_slice r0 0 m"
    by (auto simp: fetch_result_iff truncate_symbols_def)
  with assms show "int (length r) \<le> m" by (simp add: py_slice_prefix)
next
  fix U assume "fetch_us_equity_symbols server ps None = Some (Inr U)"
  then have "fetch_loop server ps None [] 0 0 = Some (Inr U)"
    by (simp add: fetch_result_iff truncate_symbols_def)
  from capped_vs_uncapped [OF this assms]
  obtain r where "fetch_loop server ps (Some m) [] 0 0 = Some (Inr r)"
    and "take (nat m) r = take (nat m) U" by blast
  with assms show "fetch_us_equity_symbols server ps (Some m) = Some (Inr (take (nat m) U))"
    by (simp add: fetch_result_iff truncate_symbols_def py_slice_prefix)
next
  fix U assume "m < int (length U)"
  with assms show "int (length (take (nat m) U)) = m" by simp
qed

theorem fetch_cap_correct_witness:
  "(0::int) \<le> 2 \<and>
   fetch_us_equity_symbols example_server 2 None = Some (Inr [''A'', ''B'', ''C'']) \<and>
   fetch_us_equity_symbols example_server 2 (Some 2) = Some (Inr [''A'', ''B''])"
proof -
  have h: "(0::int) \<le> 2" by simp
  show ?thesis
    using h fetch_cap_correct [OF h, of example_server 2] example_server_unbounded
    by simp
qed

text \<open>
  Claim C5. If some request of the page sequence stops the loop (an empty page, a page
  shorter than the page size, or an exception), then \<open>fetch_us_equity_symbols\<close>
  returns, with or without a cap.
\<close>

theorem fetch_terminates:
  assumes "page_stops server ps k"
  shows "\<exists>r. fetch_us_equity_symbols server ps mx = Some r"
proof -
  from fetch_loop_terminates [OF assms, of 0 mx "[]"]
  obtain r where "fetch_loop server ps mx [] 0 0 = Some r" by auto
  then show ?thesis by (simp add: fetch_us_equity_symbols_def)
qed

theorem fetch_terminates_witness:
  "page_stops example_server 2 1 \<and>
   (\<exists>r. fetch_us_equity_symbols example_server 2 None = Some r)"
  using fetch_terminates [OF example_server_stops, of None] example_server_stops by simp

lemma new_symbols_map_filter: "new_symbols quotes = List.map_filter quote_symbol quotes"
  by (simp add: new_symbols_def map_filter_def comp_def)

text \<open>
  Claim C6, as stated, fails: an entry whose token is present and empty is appended.
  On a page with the tokens \<open>''A''\<close>, none and the empty string, the function
  returns both \<open>''A''\<close> and the empty string, where the specification's reading
  keeps \<open>''A''\<close> only.
\<close>

theorem fetch_blank_token_counterexample:
  "fetch_us_equity_symbols blank_token_server 5 None = Some (Inr [''A'', '''']) \<and>
   page_quotes blank_token_server 5 0 =
     [\<lparr>quote_symbol = Some ''A''\<rparr>, \<lparr>quote_symbol = None\<rparr>, \<lparr>quote_symbol = Some ''''\<rparr>] \<and>
   spec_appended_tokens (page_quotes blank_token_server 5 0) = [''A'']"
  using blank_token_run
  by (simp add: page_quotes_def blank_token_server_def page_of_def get_results_def
      get_quotes_def spec_appended_tokens_def map_filter_def)

lemma page_stops_iff:
  "page_stops server ps k \<longleftrightarrow>
     page_error server ps k \<noteq> None \<or> page_quotes server ps k = [] \<or>
     int (length (page_quotes server ps k)) < ps"
  by (auto simp: page_stops_def page_error_def page_quotes_def split: sum.splits list.splits)

lemma page_quotes_error: "page_error server ps k = Some e \<Longrightarrow> page_quotes server ps k = []"
  by (auto simp: page_error_def page_quotes_def split: sum.splits)

lemma tokens_upto_Suc:
  "tokens_upto server ps (Suc k) =
     tokens_upto server ps k @ List.map_filter quote_symbol (page_quotes server ps k)"
  by (simp add: tokens_upto_def)

text \<open>One turn of the loop at request number \<open>k\<close>, read off the page of that request.\<close>

lemma fetch_loop_turn:
  "fetch_loop server ps mx syms (int k * ps) k =
     (if \<not> cap_open mx syms then Some (Inr syms)
      else case page_error server ps k of
        Some e \<Rightarrow> Some (Inl e)
      | None \<Rightarrow>
         (if page_quotes server ps k = [] then Some (Inr syms)
          else if int (length (page_quotes server ps k)) < ps
            then Some (Inr (syms @ List.map_filter quote_symbol (page_quotes server ps k)))
            else fetch_loop server ps mx
                   (syms @ List.map_filter quote_symbol (page_quotes server ps k))
                   (int (Suc k) * ps) (Suc k)))"
proof -
  have step: "int k * ps + ps = int (Suc k) * ps" by (simp add: algebra_simps)
  show ?thesis
    by (subst fetch_loop.simps)
      (auto simp: cap_open_def page_error_def page_quotes_def new_symbols_map_filter step
        split: option.splits sum.splits list.splits)
qed

text \<open>
  While no request stops the loop and the cap is not reached, the loop arrives at
  request number \<open>k\<close> with the tokens of all the pages before it.
\<close>

lemma fetch_loop_advance:
  assumes "\<forall>i<k. \<not> page_stops server ps i \<and> cap_open mx (tokens_upto server ps i)"
  shows "fetch_loop server ps mx [] 0 0 =
           fetch_loop server ps mx (tokens_upto server ps k) (int k * ps) k"
  using assms
proof (induction k)
  case 0
  show ?case by (simp add: tokens_upto_def)
next
  case (Suc k)
  from Suc.prems have before: "\<forall>i<k. \<not> page_stops server ps i \<and> cap_open mx (tokens_upto server ps i)"
    and here: "\<not> page_stops server ps k" "cap_open mx (tokens_upto server ps k)"
    by simp_all
  from here(1) have page: "page_error server ps k = None" "page_quotes server ps k \<noteq> []"
    "\<not> int (length (page_quotes server ps k)) < ps"
    by (simp_all add: page_stops_iff)
  have "fetch_loop server ps mx [] 0 0 =
      fetch_loop server ps mx (tokens_upto server ps k) (int k * ps) k"
    using before by (rule Suc.IH)
  also have "\<dots> = fetch_loop server ps mx (tokens_upto server ps (Suc k))
      (int (Suc k) * ps) (Suc k)"
    using here(2) page
    by (simp add: fetch_loop_turn [of server ps mx "tokens_upto server ps k" k] tokens_upto_Suc)
  finally show ?case .
qed

lemma fetch_from_loop:
  "fetch_loop server ps mx [] 0 0 = Some (Inr syms) \<Longrightarrow>
     fetch_us_equity_symbols server ps mx = Some (Inr (truncate_symbols mx syms))"
  "fetch_loop server ps mx [] 0 0 = Some (Inl e) \<Longrightarrow>
     fetch_us_equity_symbols server ps mx = Some (Inl e)"
  by (simp_all add: fetch_us_equity_symbols_def)

text \<open>
  Claim C6, amended. Let the requests before request number \<open>k\<close> not stop the loop,
  with the cap not reached before any of them. Then the function returns, and what it
  returns is made of exactly the tokens that are present in the entries of the pages
  received, empty or not, page after page and in order (an entry without a token is
  skipped and raises nothing), cut to the cap if there is one: the tokens of the pages
  before \<open>k\<close> when the cap is reached there or the page of \<open>k\<close> is empty, these and
  the tokens of the page of \<open>k\<close> when that page is short; the exception of request
  \<open>k\<close> if it raises.
\<close>

theorem fetch_appends_present_tokens:
  assumes "\<forall>i<k. \<not> page_stops server ps i \<and> cap_open mx (tokens_upto server ps i)"
  shows "(\<forall>j. tokens_upto server ps (Suc j) =
              tokens_upto server ps j @ List.map_filter quote_symbol (page_quotes server ps j)) \<and>
         (\<not> cap_open mx (tokens_upto server ps k) \<longrightarrow>
            fetch_us_equity_symbols server ps mx =
              Some (Inr (truncate_symbols mx (tokens_upto server ps k)))) \<and>
         (cap_open mx (tokens_upto server ps k) \<longrightarrow>
            (\<forall>e. page_error server ps k = Some e \<longrightarrow>
                  fetch_us_equity_symbols server ps mx = Some (Inl e)) \<and>
            (page_error server ps k = None \<longrightarrow> page_quotes server ps k = [] \<longrightarrow>
               fetch_us_equity_symbols server ps mx =
                 Some (Inr (truncate_symbols mx (tokens_upto server ps k)))) \<and>
            (page_quotes server ps k \<noteq> [] \<longrightarrow> int (length (page_quotes server ps k)) < ps \<longrightarrow>
               fetch_us_equity_symbols server ps mx =
                 Some (Inr (truncate_symbols mx (tokens_upto server ps (Suc k))))))"
proof -
  note start = fetch_loop_advance [OF assms]
  note turn = fetch_loop_turn [of server ps mx "tokens_upto server ps k" k]
  show ?thesis
  proof (intro conjI allI impI)
    fix j
    show "tokens_upto server ps (Suc j) =
        tokens_upto server ps j @ List.map_filter quote_symbol (page_quotes server ps j)"
      by (rule tokens_upto_Suc)
  next
    assume "\<not> cap_open mx (tokens_upto server ps k)"
    then have "fetch_loop server ps mx [] 0 0 = Some (Inr (tokens_upto server ps k))"
      by (simp add: start turn)
    then show "fetch_us_equity_symbols server ps mx =
        Some (Inr (truncate_symbols mx (tokens_upto server ps k)))"
      by (rule fetch_from_loop)
  next
    fix e
    assume "cap_open mx (tokens_upto server ps k)" "page_error server ps k = Some e"
    then have "fetch_loop server ps mx [] 0 0 = Some (Inl e)"
      by (simp add: start turn)
    then show "fetch_us_equity_symbols server ps mx = Some (Inl e)"
      by (rule fetch_from_loop)
  next
    assume "cap_open mx (tokens_upto server ps k)" "page_error server ps k = None"
      "page_quotes server ps k = []"
    then have "fetch_loop server ps mx [] 0 0 = Some (Inr (tokens_upto server ps k))"
      by (simp add: start turn)
    then show "fetch_us_equity_symbols server ps mx =
        Some (Inr (truncate_symbols mx (tokens_upto server ps k)))"
      by (rule fetch_from_loop)
  next
    assume open_k: "cap_open mx (tokens_upto server ps k)"
      and page: "page_quotes server ps k \<noteq> []" "int (length (page_quotes server ps k)) < ps"
    from page(1) have "page_error server ps k = None"
      by (cases "page_error server ps k") (auto dest: page_quotes_error)
    with open_k page
    have "fetch_loop server ps mx [] 0 0 = Some (Inr (tokens_upto server ps (Suc k)))"
      by (simp add: start turn tokens_upto_Suc)
    then show "fetch_us_equity_symbols server ps mx =
        Some (Inr (truncate_symbols mx (tokens_upto server ps (Suc k))))"
      by (rule fetch_from_loop)
  qed
qed

lemma blank_token_pages:
  "page_quotes blank_token_server 3 k =
     [\<lparr>quote_symbol = Some ''A''\<rparr>, \<lparr>quote_symbol = None\<rparr>, \<lparr>quote_symbol = Some ''''\<rparr>]"
  "page_error blank_token_server 3 k = None"
  by (simp_all add: page_quotes_def page_error_def blank_token_server_def page_of_def
      get_results_def get_quotes_def)

lemma blank_token_tokens:
  "tokens_upto blank_token_server 3 0 = []"
  "tokens_upto blank_token_server 3 1 = [''A'', '''']"
  "tokens_upto blank_token_server 3 2 = [''A'', '''', ''A'', '''']"
proof -
  show t0: "tokens_upto blank_token_server 3 0 = []"
    by (simp add: tokens_upto_def)
  have t1: "tokens_upto blank_token_server 3 (Suc 0) = [''A'', '''']"
    by (simp add: tokens_upto_Suc t0 blank_token_pages map_filter_def)
  then show "tokens_upto blank_token_server 3 1 = [''A'', '''']" by simp
  have "tokens_upto blank_token_server 3 (Suc (Suc 0)) = [''A'', '''', ''A'', '''']"
    by (simp add: tokens_upto_Suc [of _ _ "Suc 0"] t1 blank_token_pages map_filter_def)
  then show "tokens_upto blank_token_server 3 2 = [''A'', '''', ''A'', '''']"
    by (simp add: numeral_2_eq_2)
qed

theorem fetch_appends_present_tokens_witness:
  "\<not> page_stops blank_token_server 3 0 \<and>
   cap_open (Some 3) (tokens_upto blank_token_server 3 0) \<and>
   \<not> page_stops blank_token_server 3 1 \<and>
   cap_open (Some 3) (tokens_upto blank_token_server 3 1) \<and>
   \<not> cap_open (Some 3) (tokens_upto blank_token_server 3 2) \<and>
   tokens_upto blank_token_server 3 2 = [''A'', '''', ''A'', ''''] \<and>
   fetch_us_equity_symbols blank_token_server 3 (Some 3) = Some (Inr [''A'', '''', ''A''])"
proof -
  have p: "\<not> page_stops blank_token_server 3 i" for i
    by (simp add: page_stops_iff blank_token_pages)
  have c0: "cap_open (Some 3) (tokens_upto blank_token_server 3 0)"
    and c1: "cap_open (Some 3) (tokens_upto blank_token_server 3 1)"
    and c2: "\<not> cap_open (Some 3) (tokens_upto blank_token_server 3 2)"
    by (simp_all only: blank_token_tokens) (simp_all add: cap_open_def)
  have hyp: "\<forall>i<2. \<not> page_stops blank_token_server 3 i \<and>
      cap_open (Some 3) (tokens_upto blank_token_server 3 i)"
  proof (intro allI impI)
    fix i :: nat assume "i < 2"
    then have "i = 0 \<or> i = 1" by auto
    with p c0 c1 show "\<not> page_stops blank_token_server 3 i \<and>
      cap_open (Some 3) (tokens_upto blank_token_server 3 i)" by auto
  qed
  from fetch_appends_present_tokens [OF hyp, THEN conjunct2, THEN conjunct1] c2
  have "fetch_us_equity_symbols blank_token_server 3 (Some 3) =
      Some (Inr (truncate_symbols (Some 3) (tokens_upto blank_token_server 3 2)))"
    by simp
  then have run: "fetch_us_equity_symbols blank_token_server 3 (Some 3) =
      Some (Inr [''A'', '''', ''A''])"
    by (simp add: blank_token_tokens truncate_symbols_def py_slice_prefix)
  from p [of 0] p [of 1] c0 c1 c2 blank_token_tokens(3) run show ?thesis by simp
qed

section \<open>Properties of upsert\_company\_data\<close>

subsection \<open>One update operation\<close>

lemma matches_make_update [simp]:
  "matches (filter_doc (make_update s ts d)) doc = keyed_by s doc"
  by (simp add: matches_def make_update_def keyed_by_def)

lemma upsert_make_update [simp]: "upsert (make_update s ts d)"
  by (simp add: make_update_def)

lemma set_make_update:
  "doc ++ map_of (set_doc (make_update s ts d)) =
     doc(''data'' \<mapsto> d, ''last_updated'' \<mapsto> Time ts, ''symbol'' \<mapsto> Str s)"
  by (simp add: make_update_def)

lemma new_make_update:
  "map_of (filter_doc (make_update s ts d)) ++ map_of (set_doc (make_update s ts d)) =
     [''data'' \<mapsto> d, ''last_updated'' \<mapsto> Time ts, ''symbol'' \<mapsto> Str s]"
  by (simp add: make_update_def)

lemma keyed_by_set [simp]:
  "keyed_by s' (doc ++ map_of (set_doc (make_update s ts d))) \<longleftrightarrow> s' = s"
  by (auto simp: set_make_update keyed_by_def)

lemma keyed_by_new [simp]:
  "keyed_by s' (map_of (filter_doc (make_update s ts d)) ++ map_of (set_doc (make_update s ts d)))
     \<longleftrightarrow> s' = s"
  by (auto simp: new_make_update keyed_by_def)

lemma keyed_by_unique: "keyed_by s doc \<Longrightarrow> keyed_by s' doc \<Longrightarrow> s' = s"
  by (simp add: keyed_by_def)

text \<open>An operation leaves the documents keyed by another symbol as they are.\<close>

lemma filter_other_key:
  "s' \<noteq> s \<Longrightarrow>
     filter (keyed_by s') (update_one_apply (make_update s ts d) coll) = filter (keyed_by s') coll"
proof (induction coll)
  case Nil
  then show ?case by simp
next
  case (Cons doc coll)
  then show ?case by (auto dest: keyed_by_unique)
qed

text \<open>
  An operation rewrites the first document keyed by its symbol, or makes one when
  there is none.
\<close>

lemma filter_own_key:
  "filter (keyed_by s) (update_one_apply (make_update s ts d) coll) =
     (case filter (keyed_by s) coll of
        [] \<Rightarrow> [map_of (filter_doc (make_update s ts d)) ++ map_of (set_doc (make_update s ts d))]
      | doc # rest \<Rightarrow> (doc ++ map_of (set_doc (make_update s ts d))) # rest)"
  by (induction coll) auto

lemma find_filter_hd:
  "List.find P xs = (case filter P xs of [] \<Rightarrow> None | x # _ \<Rightarrow> Some x)"
  by (induction xs) auto

lemma count_key_other:
  "s' \<noteq> s \<Longrightarrow> count_key (update_one_apply (make_update s ts d) coll) s' = count_key coll s'"
  by (simp add: count_key_def filter_other_key)

lemma count_key_own:
  "count_key (update_one_apply (make_update s ts d) coll) s = max 1 (count_key coll s)"
  by (simp add: count_key_def filter_own_key split: list.splits)

text \<open>The fields that an operation of the program writes.\<close>

lemma written_fields:
  "(doc ++ map_of (set_doc (make_update s ts d))) ''symbol'' = Some (Str s) \<and>
   (doc ++ map_of (set_doc (make_update s ts d))) ''last_updated'' = Some (Time ts) \<and>
   (doc ++ map_of (set_doc (make_update s ts d))) ''data'' = Some d"
  by (simp add: set_make_update)

lemma frame_fields:
  "f \<notin> {''symbol'', ''last_updated'', ''data''} \<Longrightarrow>
     (doc ++ map_of (set_doc (make_update s ts d))) f = doc f"
  by (simp add: set_make_update)

lemma set_twice: "doc ++ fs ++ fs = doc ++ fs"
  by (rule ext) (simp add: map_add_def split: option.splits)

text \<open>An operation that was applied changes nothing when it is applied again.\<close>

lemma update_one_apply_twice:
  "update_one_apply (make_update s ts d) (update_one_apply (make_update s ts d) coll) =
     update_one_apply (make_update s ts d) coll"
proof (induction coll)
  case Nil
  show ?case by (simp add: set_twice)
next
  case (Cons doc coll)
  then show ?case by (simp add: set_twice)
qed

text \<open>
  An operation that changes nothing still changes nothing after an operation on
  another symbol.
\<close>

lemma update_one_apply_settled:
  assumes "s1 \<noteq> s2"
    and "update_one_apply (make_update s1 ts1 d1) coll = coll"
  shows "update_one_apply (make_update s1 ts1 d1) (update_one_apply (make_update s2 ts2 d2) coll) =
           update_one_apply (make_update s2 ts2 d2) coll"
  using assms(2)
proof (induction coll)
  case Nil
  then show ?case by simp
next
  case (Cons doc coll)
  show ?case
  proof (cases "keyed_by s1 doc")
    case True
    with assms(1) have "\<not> keyed_by s2 doc" by (auto dest: keyed_by_unique)
    with True Cons.prems show ?thesis by simp
  next
    case False
    with Cons.prems have "update_one_apply (make_update s1 ts1 d1) coll = coll" by simp
    with Cons.IH False assms(1) show ?thesis by simp
  qed
qed

lemma update_one_apply_frame:
  "i < length coll \<Longrightarrow> f \<notin> {''symbol'', ''last_updated'', ''data''} \<Longrightarrow>
     i < length (update_one_apply (make_update s ts d) coll) \<and>
     (update_one_apply (make_update s ts d) coll ! i) f = (coll ! i) f"
proof (induction coll arbitrary: i)
  case Nil
  then show ?case by simp
next
  case (Cons doc coll)
  show ?case
  proof (cases i)
    case 0
    with Cons.prems show ?thesis by (simp add: frame_fields)
  next
    case (Suc j)
    with Cons show ?thesis by simp
  qed
qed

subsection \<open>The operations of a batch\<close>

lemma apply_symbols_Nil [simp]: "apply_symbols data ts [] coll = coll"
  by (simp add: apply_symbols_def)

lemma apply_symbols_Cons [simp]:
  "apply_symbols data ts (s # ss) coll =
     apply_symbols data ts ss (update_one_apply (make_update s ts (symbol_data_of data s)) coll)"
  by (simp add: apply_symbols_def)

lemma count_key_apply_symbols:
  "count_key (apply_symbols data ts ss coll) s =
     (if s \<in> set ss then max 1 (count_key coll s) else count_key coll s)"
proof (induction ss arbitrary: coll)
  case Nil
  show ?case by simp
next
  case (Cons s' ss)
  show ?case
  proof (cases "s' = s")
    case True
    then show ?thesis by (simp add: Cons.IH count_key_own)
  next
    case False
    then show ?thesis by (simp add: Cons.IH count_key_other)
  qed
qed

lemma committed_own:
  "committed data ts (update_one_apply (make_update s ts (symbol_data_of data s)) coll) s"
  by (simp add: committed_def find_filter_hd filter_own_key written_fields new_make_update
      split: list.splits)

lemma committed_other:
  assumes "committed data ts coll s"
  shows "committed data ts (update_one_apply (make_update s' ts (symbol_data_of data s')) coll) s"
proof (cases "s' = s")
  case True
  then show ?thesis by (simp add: committed_own)
next
  case False
  then have "filter (keyed_by s)
      (update_one_apply (make_update s' ts (symbol_data_of data s')) coll) =
      filter (keyed_by s) coll"
    by (simp add: filter_other_key)
  with assms show ?thesis by (simp add: committed_def find_filter_hd)
qed

lemma committed_apply_symbols:
  "s \<in> set ss \<or> committed data ts coll s \<Longrightarrow> committed data ts (apply_symbols data ts ss coll) s"
proof (induction ss arbitrary: coll)
  case Nil
  then show ?case by simp
next
  case (Cons s' ss)
  let ?coll' = "update_one_apply (make_update s' ts (symbol_data_of data s')) coll"
  have "s \<in> set ss \<or> committed data ts ?coll' s"
  proof (cases "s = s'")
    case True
    then show ?thesis by (simp add: committed_own)
  next
    case False
    with Cons.prems show ?thesis by (auto intro: committed_other)
  qed
  then show ?case by (simp add: Cons.IH)
qed

lemma settled_apply_symbols:
  "s \<in> set ss \<or> update_one_apply (make_update s ts (symbol_data_of data s)) coll = coll \<Longrightarrow>
     update_one_apply (make_update s ts (symbol_data_of data s)) (apply_symbols data ts ss coll) =
       apply_symbols data ts ss coll"
proof (induction ss arbitrary: coll)
  case Nil
  then show ?case by simp
next
  case (Cons s' ss)
  let ?u = "make_update s ts (symbol_data_of data s)"
  let ?coll' = "update_one_apply (make_update s' ts (symbol_data_of data s')) coll"
  have "s \<in> set ss \<or> update_one_apply ?u ?coll' = ?coll'"
  proof (cases "s = s'")
    case True
    then show ?thesis by (simp add: update_one_apply_twice)
  next
    case False
    with Cons.prems show ?thesis by (auto intro: update_one_apply_settled)
  qed
  then show ?case by (simp add: Cons.IH)
qed

lemma apply_symbols_settled:
  "(\<And>s. s \<in> set ss \<Longrightarrow> update_one_apply (make_update s ts (symbol_data_of data s)) coll = coll)
     \<Longrightarrow> apply_symbols data ts ss coll = coll"
  by (induction ss) simp_all

lemma apply_symbols_twice:
  "apply_symbols data ts ss (apply_symbols data ts ss coll) = apply_symbols data ts ss coll"
  by (rule apply_symbols_settled) (simp add: settled_apply_symbols)

lemma apply_symbols_frame:
  "i < length coll \<Longrightarrow> f \<notin> {''symbol'', ''last_updated'', ''data''} \<Longrightarrow>
     i < length (apply_symbols data ts ss coll) \<and>
     (apply_symbols data ts ss coll ! i) f = (coll ! i) f"
proof (induction ss arbitrary: coll)
  case Nil
  then show ?case by simp
next
  case (Cons s ss)
  let ?coll' = "update_one_apply (make_update s ts (symbol_data_of data s)) coll"
  from Cons.prems have step: "i < length ?coll' \<and> (?coll' ! i) f = (coll ! i) f"
    by (intro update_one_apply_frame)
  with Cons.IH [of ?coll'] Cons.prems(2) show ?case by simp
qed

subsection \<open>The unordered bulk write\<close>

lemma rejected_indexes_Nil [simp]: "rejected_indexes rej [] = []"
  by (simp add: rejected_indexes_def)

lemma rejected_indexes_Cons:
  "rejected_indexes rej (u # us) =
     (if rej u then [0] else []) @ map Suc (rejected_indexes rej us)"
proof -
  have "[0..<length (u # us)] = 0 # map Suc [0..<length us]"
    by (simp add: upt_conv_Cons map_Suc_upt del: upt_Suc)
  then show ?thesis
    by (simp add: rejected_indexes_def filter_map comp_def del: upt_Suc)
qed

lemma rejected_indexes_empty_iff:
  "rejected_indexes rej us = [] \<longleftrightarrow> (\<forall>u \<in> set us. \<not> rej u)"
  by (induction us) (simp_all add: rejected_indexes_Cons)

lemma bulk_write_ops_unordered:
  "bulk_write_ops rej False us i coll =
     (fold update_one_apply (filter (\<lambda>u. \<not> rej u) us) coll,
      map (\<lambda>k. i + k) (rejected_indexes rej us))"
proof (induction us arbitrary: i coll)
  case Nil
  show ?case by simp
next
  case (Cons u us)
  show ?case by (simp add: Cons.IH rejected_indexes_Cons comp_def)
qed

lemma filter_build_operations:
  "filter (\<lambda>u. \<not> rej u) (build_operations batch data ts) =
     map (\<lambda>s. make_update s ts (symbol_data_of data s))
       (filter (\<lambda>s. \<not> rej (make_update s ts (symbol_data_of data s))) batch)"
  by (simp add: build_operations_def filter_map comp_def)

lemma upsert_batch_result:
  "upsert_batch None rej coll batch data ts =
     (apply_symbols data ts
        (filter (\<lambda>s. \<not> rej (make_update s ts (symbol_data_of data s))) batch) coll,
      if rejected_indexes rej (build_operations batch data ts) = [] then None
      else Some (BulkWriteError (rejected_indexes rej (build_operations batch data ts))))"
proof (cases "batch = []")
  case True
  then show ?thesis by (simp add: upsert_batch_def build_operations_def)
next
  case False
  then have "build_operations batch data ts \<noteq> []" by (simp add: build_operations_def)
  then show ?thesis
    by (simp add: upsert_batch_def bulk_write_def bulk_write_ops_unordered
        filter_build_operations apply_symbols_def fold_map comp_def)
qed

lemma upsert_batch_call_fails:
  "upsert_batch (Some e) rej coll batch data ts = (coll, if batch = [] then None else Some e)"
  by (simp add: upsert_batch_def bulk_write_def build_operations_def)

lemma upsert_batch_no_error:
  "snd (upsert_batch None rej coll batch data ts) = None \<longleftrightarrow>
     (\<forall>s \<in> set batch. \<not> rej (make_update s ts (symbol_data_of data s)))"
  by (simp add: upsert_batch_result rejected_indexes_empty_iff build_operations_def)

subsection \<open>The claims about one batch\<close>

lemma upsert_batch_commits:
  assumes "s \<in> set batch" "\<not> rej (make_update s ts (symbol_data_of data s))"
  shows "committed data ts (fst (upsert_batch None rej coll batch data ts)) s"
  using assms by (simp add: upsert_batch_result committed_apply_symbols)

lemma upsert_batch_count:
  assumes "s \<in> set batch" "\<not> rej (make_update s ts (symbol_data_of data s))"
  shows "count_key (fst (upsert_batch None rej coll batch data ts)) s = max 1 (count_key coll s)"
  using assms by (simp add: upsert_batch_result count_key_apply_symbols)

lemma twin_docs_count: "count_key twin_docs ''A'' = 2 \<and> count_key twin_docs ''B'' = 0"
  by (simp add: count_key_def twin_docs_def noted_doc_def keyed_by_def)

lemma twin_docs_batch:
  "fst (upsert_batch None rejects_B twin_docs [''A'', ''B''] example_data 7) =
     apply_symbols example_data 7 [''A''] twin_docs"
  by (simp add: upsert_batch_result rejects_B_def make_update_def)

text \<open>
  Claim C3, as stated, fails in its last part. On a collection that holds two
  documents for \<open>''A''\<close>, with a store that rejects the operation for \<open>''B''\<close>, the
  upsert of the chunk \<open>''A''\<close>, \<open>''B''\<close> leaves two documents keyed by \<open>''A''\<close> and
  none keyed by \<open>''B''\<close>.
\<close>

theorem upsert_coverage_counterexample:
  "count_key (fst (upsert_batch None rejects_B twin_docs [''A'', ''B''] example_data 7)) ''A'' = 2 \<and>
   count_key (fst (upsert_batch None rejects_B twin_docs [''A'', ''B''] example_data 7)) ''B'' = 0"
  by (simp add: twin_docs_batch count_key_own count_key_other twin_docs_count)

text \<open>
  Claim C3, amended. The batch builds one operation for each symbol of the chunk, in
  order: a query by the symbol, with \<^verbatim>\<open>upsert\<close>, whose data is the mapping's value
  or the empty dictionary when the mapping has none. After a bulk write that reached
  the store, every symbol of the chunk whose operation the store did not reject has a
  document keyed by it that carries the symbol's data; it has as many documents as
  before, and one if it had none: exactly one when the collection held at most one.
\<close>

theorem upsert_full_coverage:
  "length (build_operations batch data ts) = length batch \<and>
   (\<forall>k < length batch.
      filter_doc (build_operations batch data ts ! k) = [(''symbol'', Str (batch ! k))] \<and>
      upsert (build_operations batch data ts ! k) \<and>
      map_of (set_doc (build_operations batch data ts ! k)) ''data'' =
        Some (case data (batch ! k) of None \<Rightarrow> Dict [] | Some d \<Rightarrow> d)) \<and>
   (\<forall>s \<in> set batch. \<not> rej (make_update s ts (symbol_data_of data s)) \<longrightarrow>
      count_key (fst (upsert_batch None rej coll batch data ts)) s = max 1 (count_key coll s) \<and>
      committed data ts (fst (upsert_batch None rej coll batch data ts)) s)"
proof (intro conjI allI impI ballI)
  show "length (build_operations batch data ts) = length batch"
    by (simp add: build_operations_def)
next
  fix k assume "k < length batch"
  then have "build_operations batch data ts ! k =
      make_update (batch ! k) ts (symbol_data_of data (batch ! k))"
    by (simp add: build_operations_def)
  then show "filter_doc (build_operations batch data ts ! k) = [(''symbol'', Str (batch ! k))]"
    and "upsert (build_operations batch data ts ! k)"
    and "map_of (set_doc (build_operations batch data ts ! k)) ''data'' =
        Some (case data (batch ! k) of None \<Rightarrow> Dict [] | Some d \<Rightarrow> d)"
    by (simp_all add: make_update_def symbol_data_of_def)
next
  fix s
  assume s: "s \<in> set batch" "\<not> rej (make_update s ts (symbol_data_of data s))"
  then show "count_key (fst (upsert_batch None rej coll batch data ts)) s =
      max 1 (count_key coll s)"
    by (rule upsert_batch_count)
  from s show "committed data ts (fst (upsert_batch None rej coll batch data ts)) s"
    by (rule upsert_batch_commits)
qed

theorem upsert_full_coverage_witness:
  "''D'' \<in> set [''A'', ''B'', ''C'', ''D''] \<and>
   \<not> rejects_B (make_update ''D'' 7 (symbol_data_of example_data ''D'')) \<and>
   length (build_operations [''A'', ''B'', ''C'', ''D''] example_data 7) = 4 \<and>
   count_key [] ''D'' = 0 \<and>
   count_key (fst (upsert_batch None rejects_B [] [''A'', ''B'', ''C'', ''D''] example_data 7))
     ''D'' = 1 \<and>
   committed example_data 7
     (fst (upsert_batch None rejects_B [] [''A'', ''B'', ''C'', ''D''] example_data 7)) ''D'' \<and>
   symbol_data_of example_data ''D'' = Dict []"
proof -
  note res = upsert_full_coverage
    [of "[''A'', ''B'', ''C'', ''D'']" example_data 7 rejects_B "[]"]
  have mem: "''D'' \<in> set [''A'', ''B'', ''C'', ''D'']" by simp
  have acc: "\<not> rejects_B (make_update ''D'' 7 (symbol_data_of example_data ''D''))"
    by (simp add: rejects_B_def make_update_def)
  have zero: "count_key [] ''D'' = 0" by (simp add: count_key_def)
  have dflt: "symbol_data_of example_data ''D'' = Dict []"
    by (simp add: symbol_data_of_def example_data_def)
  from res [THEN conjunct1]
  have len: "length (build_operations [''A'', ''B'', ''C'', ''D''] example_data 7) = 4"
    by simp
  from res [THEN conjunct2, THEN conjunct2] mem acc
  have "count_key (fst (upsert_batch None rejects_B [] [''A'', ''B'', ''C'', ''D''] example_data 7))
     ''D'' = max 1 (count_key [] ''D'') \<and>
   committed example_data 7
     (fst (upsert_batch None rejects_B [] [''A'', ''B'', ''C'', ''D''] example_data 7)) ''D''"
    by blast
  with mem acc len zero dflt show ?thesis by simp
qed

text \<open>
  Claim C4. For every collection, chunk, detail mapping and timestamp, whatever the
  store rejects and whether the call fails or not, a second upsert with the same
  inputs leaves the collection as the first one left it (and raises what the first one
  raised).
\<close>

theorem upsert_idempotent:
  "upsert_batch fail rej (fst (upsert_batch fail rej coll batch data ts)) batch data ts =
     upsert_batch fail rej coll batch data ts"
proof (cases fail)
  case None
  then show ?thesis by (simp add: upsert_batch_result apply_symbols_twice)
next
  case (Some e)
  then show ?thesis by (simp add: upsert_batch_call_fails)
qed

theorem upsert_idempotent_witness:
  "upsert_batch None rejects_B
     (fst (upsert_batch None rejects_B [noted_doc] [''A'', ''B''] example_data 7))
     [''A'', ''B''] example_data 7 =
   upsert_batch None rejects_B [noted_doc] [''A'', ''B''] example_data 7"
  by (rule upsert_idempotent)

text \<open>
  Claim C7. A non-empty batch is one call of the bulk write with all its operations
  and \<^verbatim>\<open>ordered=False\<close>. When the call reaches the store, every operation that
  the store does not reject is committed, whatever happens to the others; and the call
  raises exactly when some operation was rejected, with the indexes of all rejected
  operations, that is after all were attempted.
\<close>

theorem upsert_unordered_resilience:
  "upsert_batch fail rej coll batch data ts =
     (if batch = [] then (coll, None)
      else bulk_write fail rej coll (build_operations batch data ts) False) \<and>
   (\<forall>s \<in> set batch. \<not> rej (make_update s ts (symbol_data_of data s)) \<longrightarrow>
      committed data ts (fst (upsert_batch None rej coll batch data ts)) s) \<and>
   snd (upsert_batch None rej coll batch data ts) =
     (if \<forall>u \<in> set (build_operations batch data ts). \<not> rej u then None
      else Some (BulkWriteError (rejected_indexes rej (build_operations batch data ts))))"
proof (intro conjI ballI impI)
  show "upsert_batch fail rej coll batch data ts =
     (if batch = [] then (coll, None)
      else bulk_write fail rej coll (build_operations batch data ts) False)"
    by (simp add: upsert_batch_def build_operations_def)
next
  fix s assume "s \<in> set batch" "\<not> rej (make_update s ts (symbol_data_of data s))"
  then show "committed data ts (fst (upsert_batch None rej coll batch data ts)) s"
    by (rule upsert_batch_commits)
next
  show "snd (upsert_batch None rej coll batch data ts) =
     (if \<forall>u \<in> set (build_operations batch data ts). \<not> rej u then None
      else Some (BulkWriteError (rejected_indexes rej (build_operations batch data ts))))"
    by (simp add: upsert_batch_result rejected_indexes_empty_iff)
qed

lemma example_rejected_indexes:
  "rejected_indexes rejects_B (build_operations [''A'', ''B'', ''C''] example_data 7) = [1]"
  by (simp add: rejected_indexes_Cons build_operations_def rejects_B_def make_update_def)

theorem upsert_unordered_resilience_witness:
  "''C'' \<in> set [''A'', ''B'', ''C''] \<and>
   \<not> rejects_B (make_update ''C'' 7 (symbol_data_of example_data ''C'')) \<and>
   rejects_B (make_update ''B'' 7 (symbol_data_of example_data ''B'')) \<and>
   committed example_data 7
     (fst (upsert_batch None rejects_B [] [''A'', ''B'', ''C''] example_data 7)) ''C'' \<and>
   snd (upsert_batch None rejects_B [] [''A'', ''B'', ''C''] example_data 7) =
     Some (BulkWriteError [1])"
proof -
  have acc: "\<not> rejects_B (make_update ''C'' 7 (symbol_data_of example_data ''C''))"
    and rej: "rejects_B (make_update ''B'' 7 (symbol_data_of example_data ''B''))"
    by (simp_all add: rejects_B_def make_update_def)
  have some: "\<not> (\<forall>u \<in> set (build_operations [''A'', ''B'', ''C''] example_data 7).
      \<not> rejects_B u)"
    using rej by (simp add: build_operations_def)
  note res = upsert_unordered_resilience
    [of None rejects_B "[]" "[''A'', ''B'', ''C'']" example_data 7]
  from res [THEN conjunct2, THEN conjunct1] acc
  have c: "committed example_data 7
     (fst (upsert_batch None rejects_B [] [''A'', ''B'', ''C''] example_data 7)) ''C''"
    by simp
  from res [THEN conjunct2, THEN conjunct2] some example_rejected_indexes
  have e: "snd (upsert_batch None rejects_B [] [''A'', ''B'', ''C''] example_data 7) =
     Some (BulkWriteError [1])"
    by simp
  from acc rej c e show ?thesis by simp
qed

text \<open>
  Claim C9. An upsert leaves every field other than \<open>symbol\<close>, \<open>last_updated\<close> and
  \<open>data\<close> of every document of the collection as it was; no document is removed.
\<close>

theorem upsert_frame:
  assumes "i < length coll" "f \<notin> {''symbol'', ''last_updated'', ''data''}"
  shows "i < length (fst (upsert_batch fail rej coll batch data ts)) \<and>
         (fst (upsert_batch fail rej coll batch data ts) ! i) f = (coll ! i) f"
proof (cases fail)
  case None
  with assms show ?thesis by (simp add: upsert_batch_result apply_symbols_frame)
next
  case (Some e)
  with assms show ?thesis by (simp add: upsert_batch_call_fails)
qed

theorem upsert_frame_witness:
  "0 < length [noted_doc] \<and> ''note'' \<notin> {''symbol'', ''last_updated'', ''data''} \<and>
   (fst (upsert_batch None rejects_none [noted_doc] [''A''] example_data 7) ! 0) ''note'' =
     Some (Str ''keep'') \<and>
   committed example_data 7
     (fst (upsert_batch None rejects_none [noted_doc] [''A''] example_data 7)) ''A''"
proof -
  have a: "0 < length [noted_doc]" by simp
  have b: "''note'' \<notin> {''symbol'', ''last_updated'', ''data''}" by simp
  have "\<not> rejects_none (make_update ''A'' 7 (symbol_data_of example_data ''A''))"
    by (simp add: rejects_none_def)
  then have "committed example_data 7
      (fst (upsert_batch None rejects_none [noted_doc] [''A''] example_data 7)) ''A''"
    by (intro upsert_batch_commits) simp_all
  with upsert_frame [OF a b, of None rejects_none "[''A'']" example_data 7] a b
  show ?thesis by (simp add: noted_doc_def)
qed

subsection \<open>The loop over the batches\<close>

lemma upsert_batches_append:
  "upsert_batches env modules idx (pre @ rest) w =
     (case upsert_batches env modules idx pre w of
        (w1, None) \<Rightarrow> upsert_batches env modules (idx + length pre) rest w1
      | (w1, Some e) \<Rightarrow> (w1, Some e))"
proof (induction pre arbitrary: idx w)
  case Nil
  show ?case by simp
next
  case (Cons b pre)
  show ?case
    by (simp add: Cons.IH Let_def split: sum.splits prod.splits option.splits)
qed

lemma upsert_batches_fetch_fails:
  "get_modules env idx b modules = Inl e \<Longrightarrow>
     upsert_batches env modules idx (b # rest) w = (w, Some e)"
  by simp

text \<open>One batch whose details were fetched, when the batch raises.\<close>

lemma upsert_batches_raises:
  assumes "get_modules env idx b modules = Inr data"
    and "snd (upsert_batch (write_fails env idx) (rejects env) (docs w) b data
           (utcnow env (clock_reads w))) = Some e"
  shows "docs (fst (upsert_batches env modules idx (b # rest) w)) =
           fst (upsert_batch (write_fails env idx) (rejects env) (docs w) b data
                  (utcnow env (clock_reads w))) \<and>
         snd (upsert_batches env modules idx (b # rest) w) = Some e"
proof -
  obtain c where "upsert_batch (write_fails env idx) (rejects env) (docs w) b data
      (utcnow env (clock_reads w)) = (c, Some e)"
    using assms(2)
    by (cases "upsert_batch (write_fails env idx) (rejects env) (docs w) b data
      (utcnow env (clock_reads w))") simp
  with assms(1) show ?thesis by (simp add: Let_def)
qed

text \<open>One batch whose details were fetched, alone, whatever its outcome.\<close>

lemma upsert_batches_single:
  assumes "get_modules env idx b modules = Inr data"
  shows "docs (fst (upsert_batches env modules idx [b] w)) =
           fst (upsert_batch (write_fails env idx) (rejects env) (docs w) b data
                  (utcnow env (clock_reads w))) \<and>
         snd (upsert_batches env modules idx [b] w) =
           snd (upsert_batch (write_fails env idx) (rejects env) (docs w) b data
                  (utcnow env (clock_reads w))) \<and>
         clock_reads (fst (upsert_batches env modules idx [b] w)) = Suc (clock_reads w) \<and>
         bulk_writes (fst (upsert_batches env modules idx [b] w)) =
           bulk_writes w @
             (if b = [] then [] else [build_operations b data (utcnow env (clock_reads w))])"
proof -
  obtain c r where "upsert_batch (write_fails env idx) (rejects env) (docs w) b data
      (utcnow env (clock_reads w)) = (c, r)"
    by (cases "upsert_batch (write_fails env idx) (rejects env) (docs w) b data
      (utcnow env (clock_reads w))")
  with assms show ?thesis
    by (cases r) (simp_all add: Let_def build_operations_def)
qed

lemma upsert_company_data_batches:
  "chunked symbols batch_size = Inr batches \<Longrightarrow>
     upsert_company_data env w symbols modules batch_size =
       upsert_batches env modules 1 batches w"
  by (auto simp: upsert_company_data_def chunked_def)

lemma chunks_from_nonempty:
  "0 < sz \<Longrightarrow> 0 \<le> start \<Longrightarrow> [] \<notin> set (chunks_from items sz start)"
proof (induction start "int (length items)" sz rule: py_range.induct)
  case (1 start sz)
  show ?case
  proof (cases "start < int (length items)")
    case True
    then have "[] \<notin> set (chunks_from items sz (start + sz))"
      using "1.prems" "1.hyps"(1) by simp
    with True "1.prems" show ?thesis
      by (auto simp: chunks_from_unfold [of sz start])
  next
    case False
    with "1.prems" show ?thesis by (simp add: chunks_from_unfold [of sz start])
  qed
qed

lemma py_range_negative_step: "sz < 0 \<Longrightarrow> 0 \<le> n \<Longrightarrow> py_range 0 n sz = []"
  by (subst py_range.simps) simp

lemma chunked_nonempty:
  assumes "chunked items sz = Inr batches"
  shows "[] \<notin> set batches"
proof (cases "0 < sz")
  case True
  with assms chunks_from_nonempty [of sz 0 items] show ?thesis
    by (simp add: chunked_chunks_from)
next
  case False
  with assms show ?thesis
    by (auto simp: chunked_def py_range_negative_step split: if_splits)
qed

lemma failing_env_run:
  "docs (fst (upsert_company_data failing_env empty_world [''A'', ''B'', ''C''] [''price''] 2)) =
     apply_symbols example_data 100 [''A''] [] \<and>
   snd (upsert_company_data failing_env empty_world [''A'', ''B'', ''C''] [''price''] 2) =
     Some (BulkWriteError [1])"
  by (simp add: upsert_company_data_batches [OF chunked_example] failing_env_def
      example_env_def empty_world_def upsert_batch_result rejected_indexes_Cons
      build_operations_def rejects_B_def make_update_def)

text \<open>
  Claim C8, as stated, fails for a failure of the bulk write. With the symbols
  \<open>''A''\<close>, \<open>''B''\<close>, \<open>''C''\<close> in batches of 2 and a store that rejects the operation
  for \<open>''B''\<close>, the bulk write of the first batch raises, and the document of
  \<open>''A''\<close>, a symbol of that batch, is in the collection; nothing of the second batch
  is.
\<close>

theorem upsert_failing_chunk_counterexample:
  "chunked [''A'', ''B'', ''C''] 2 = Inr [[''A'', ''B''], [''C'']] \<and>
   snd (upsert_company_data failing_env empty_world [''A'', ''B'', ''C''] [''price''] 2) =
     Some (BulkWriteError [1]) \<and>
   count_key
     (docs (fst (upsert_company_data failing_env empty_world [''A'', ''B'', ''C''] [''price''] 2)))
     ''A'' = 1 \<and>
   count_key
     (docs (fst (upsert_company_data failing_env empty_world [''A'', ''B'', ''C''] [''price''] 2)))
     ''C'' = 0"
  by (simp add: failing_env_run chunked_example count_key_own count_key_other)
    (simp add: count_key_def)

text \<open>
  Claim C8, amended. Let the batches before batch \<open>b\<close> succeed and leave the world
  \<open>w1\<close>. If the detail fetch for \<open>b\<close> raises, the function ends with that exception
  and the world \<open>w1\<close>. If the bulk write call for \<open>b\<close> itself fails, the function
  ends with that exception and the collection of \<open>w1\<close>. If the bulk write for \<open>b\<close>
  reaches the store and some operation is rejected, the function ends with the
  \<open>BulkWriteError\<close> of the rejected operations and the collection of \<open>w1\<close> with the
  operations of \<open>b\<close> that the store did not reject. The batches after \<open>b\<close> play no
  part in any of these.
\<close>

theorem upsert_failure_stops:
  assumes "chunked symbols batch_size = Inr (pre @ b # post)"
    and "upsert_batches env modules 1 pre w0 = (w1, None)"
  shows "(\<forall>e. get_modules env (Suc (length pre)) b modules = Inl e \<longrightarrow>
            upsert_company_data env w0 symbols modules batch_size = (w1, Some e)) \<and>
         (\<forall>data e. get_modules env (Suc (length pre)) b modules = Inr data \<longrightarrow>
            write_fails env (Suc (length pre)) = Some e \<longrightarrow>
            docs (fst (upsert_company_data env w0 symbols modules batch_size)) = docs w1 \<and>
            snd (upsert_company_data env w0 symbols modules batch_size) = Some e) \<and>
         (\<forall>data. get_modules env (Suc (length pre)) b modules = Inr data \<longrightarrow>
            write_fails env (Suc (length pre)) = None \<longrightarrow>
            (\<exists>s \<in> set b. rejects env
               (make_update s (utcnow env (clock_reads w1)) (symbol_data_of data s))) \<longrightarrow>
            docs (fst (upsert_company_data env w0 symbols modules batch_size)) =
              apply_symbols data (utcnow env (clock_reads w1))
                (filter (\<lambda>s. \<not> rejects env
                    (make_update s (utcnow env (clock_reads w1)) (symbol_data_of data s))) b)
                (docs w1) \<and>
            snd (upsert_company_data env w0 symbols modules batch_size) =
              Some (BulkWriteError (rejected_indexes (rejects env)
                (build_operations b data (utcnow env (clock_reads w1))))))"
proof -
  let ?k = "Suc (length pre)"
  let ?ts = "utcnow env (clock_reads w1)"
  have run: "upsert_company_data env w0 symbols modules batch_size =
      upsert_batches env modules ?k (b # post) w1"
    using assms(2) by (simp add: upsert_company_data_batches [OF assms(1)] upsert_batches_append)
  have b: "b \<noteq> []"
    using chunked_nonempty [OF assms(1)] by auto
  show ?thesis
  proof (intro conjI allI impI)
    fix e assume "get_modules env ?k b modules = Inl e"
    then show "upsert_company_data env w0 symbols modules batch_size = (w1, Some e)"
      unfolding run by (rule upsert_batches_fetch_fails)
  next
    fix data e
    assume fetch: "get_modules env ?k b modules = Inr data"
      and fail: "write_fails env ?k = Some e"
    have ub: "upsert_batch (write_fails env ?k) (rejects env) (docs w1) b data ?ts =
        (docs w1, Some e)"
      using b by (simp add: fail upsert_batch_call_fails)
    from upsert_batches_raises [OF fetch, of w1 e post] ub
    show "docs (fst (upsert_company_data env w0 symbols modules batch_size)) = docs w1"
      and "snd (upsert_company_data env w0 symbols modules batch_size) = Some e"
      unfolding run by simp_all
  next
    fix data
    assume fetch: "get_modules env ?k b modules = Inr data"
      and reach: "write_fails env ?k = None"
      and rej: "\<exists>s \<in> set b. rejects env (make_update s ?ts (symbol_data_of data s))"
    let ?err = "BulkWriteError (rejected_indexes (rejects env) (build_operations b data ?ts))"
    from rej have "rejected_indexes (rejects env) (build_operations b data ?ts) \<noteq> []"
      by (simp add: rejected_indexes_empty_iff build_operations_def)
    then have ub: "upsert_batch (write_fails env ?k) (rejects env) (docs w1) b data ?ts =
        (apply_symbols data ?ts
           (filter (\<lambda>s. \<not> rejects env (make_update s ?ts (symbol_data_of data s))) b)
           (docs w1),
         Some ?err)"
      by (simp add: reach upsert_batch_result)
    from upsert_batches_raises [OF fetch, of w1 ?err post] ub
    show "docs (fst (upsert_company_data env w0 symbols modules batch_size)) =
        apply_symbols data ?ts
          (filter (\<lambda>s. \<not> rejects env (make_update s ?ts (symbol_data_of data s))) b)
          (docs w1)"
      and "snd (upsert_company_data env w0 symbols modules batch_size) = Some ?err"
      unfolding run by simp_all
  qed
qed

lemma example_chunks: "chunked [''A'', ''B'', ''C''] 2 = Inr ([] @ [''A'', ''B''] # [[''C'']])"
  by (simp add: chunked_example)

lemma example_chunks_last: "chunked [''A'', ''B'', ''C''] 2 = Inr ([[''A'', ''B'']] @ [''C''] # [])"
  by (simp add: chunked_example)

lemma first_batch_run:
  "upsert_batches example_env [''price''] 1 [[''A'', ''B'']] empty_world =
     (first_batch_world, None)"
  by (simp add: example_env_def empty_world_def first_batch_world_def upsert_batch_result
      rejected_indexes_Cons build_operations_def rejects_none_def)

lemma down_env_first_batch:
  "upsert_batches down_env [''price''] 1 [[''A'', ''B'']] empty_world =
     (first_batch_world, None)"
  by (simp add: down_env_def example_env_def empty_world_def first_batch_world_def
      upsert_batch_result rejected_indexes_Cons build_operations_def rejects_none_def)

theorem upsert_failure_stops_witness:
  "chunked [''A'', ''B'', ''C''] 2 = Inr ([[''A'', ''B'']] @ [''C''] # []) \<and>
   upsert_batches down_env [''price''] 1 [[''A'', ''B'']] empty_world =
     (first_batch_world, None) \<and>
   get_modules down_env (Suc (length [[''A'', ''B'']])) [''C''] [''price''] =
     Inl (TransportError ''down'') \<and>
   upsert_company_data down_env empty_world [''A'', ''B'', ''C''] [''price''] 2 =
     (first_batch_world, Some (TransportError ''down'')) \<and>
   chunked [''A'', ''B'', ''C''] 2 = Inr ([] @ [''A'', ''B''] # [[''C'']]) \<and>
   upsert_batches lost_env [''price''] 1 [] empty_world = (empty_world, None) \<and>
   get_modules lost_env (Suc (length ([] :: string list list))) [''A'', ''B''] [''price''] =
     Inr example_data \<and>
   write_fails lost_env (Suc (length ([] :: string list list))) = Some ConnectionFailure \<and>
   docs (fst (upsert_company_data lost_env empty_world [''A'', ''B'', ''C''] [''price''] 2)) =
     [] \<and>
   snd (upsert_company_data lost_env empty_world [''A'', ''B'', ''C''] [''price''] 2) =
     Some ConnectionFailure \<and>
   upsert_batches failing_env [''price''] 1 [] empty_world = (empty_world, None) \<and>
   get_modules failing_env (Suc (length ([] :: string list list))) [''A'', ''B''] [''price''] =
     Inr example_data \<and>
   write_fails failing_env (Suc (length ([] :: string list list))) = None \<and>
   rejects failing_env (make_update ''B'' 100 (symbol_data_of example_data ''B'')) \<and>
   docs (fst (upsert_company_data failing_env empty_world [''A'', ''B'', ''C''] [''price''] 2)) =
     apply_symbols example_data 100 [''A''] [] \<and>
   snd (upsert_company_data failing_env empty_world [''A'', ''B'', ''C''] [''price''] 2) =
     Some (BulkWriteError [1])"
proof -
  have down: "get_modules down_env (Suc (length [[''A'', ''B'']])) [''C''] [''price''] =
      Inl (TransportError ''down'')"
    by (simp add: down_env_def example_env_def)
  have run1: "upsert_company_data down_env empty_world [''A'', ''B'', ''C''] [''price''] 2 =
      (first_batch_world, Some (TransportError ''down''))"
    using upsert_failure_stops [OF example_chunks_last down_env_first_batch, THEN conjunct1]
      down by simp
  have start2: "upsert_batches lost_env [''price''] 1 [] empty_world = (empty_world, None)"
    by simp
  have fetch2: "get_modules lost_env (Suc (length ([] :: string list list)))
      [''A'', ''B''] [''price''] = Inr example_data"
    by (simp add: lost_env_def example_env_def)
  have fail2: "write_fails lost_env (Suc (length ([] :: string list list))) =
      Some ConnectionFailure"
    by (simp add: lost_env_def example_env_def)
  have run2: "docs (fst (upsert_company_data lost_env empty_world [''A'', ''B'', ''C'']
        [''price''] 2)) = [] \<and>
      snd (upsert_company_data lost_env empty_world [''A'', ''B'', ''C''] [''price''] 2) =
        Some ConnectionFailure"
    using upsert_failure_stops [OF example_chunks start2, THEN conjunct2, THEN conjunct1,
        rule_format, OF fetch2 fail2]
    by (simp add: empty_world_def)
  have start3: "upsert_batches failing_env [''price''] 1 [] empty_world = (empty_world, None)"
    by simp
  have fetch3: "get_modules failing_env (Suc (length ([] :: string list list)))
      [''A'', ''B''] [''price''] = Inr example_data"
    by (simp add: failing_env_def example_env_def)
  have reach3: "write_fails failing_env (Suc (length ([] :: string list list))) = None"
    by (simp add: failing_env_def example_env_def)
  have rej3: "rejects failing_env (make_update ''B'' 100 (symbol_data_of example_data ''B''))"
    by (simp add: failing_env_def example_env_def rejects_B_def make_update_def)
  have ts3: "utcnow failing_env (clock_reads empty_world) = 100"
    by (simp add: failing_env_def example_env_def empty_world_def)
  have some3: "\<exists>s \<in> set [''A'', ''B'']. rejects failing_env
      (make_update s (utcnow failing_env (clock_reads empty_world))
         (symbol_data_of example_data s))"
    using rej3 ts3 by simp
  have idx3: "rejected_indexes (rejects failing_env)
      (build_operations [''A'', ''B''] example_data 100) = [1]"
    by (simp add: rejected_indexes_Cons build_operations_def failing_env_def example_env_def
        rejects_B_def make_update_def)
  have acc3: "filter (\<lambda>s. \<not> rejects failing_env
      (make_update s 100 (symbol_data_of example_data s))) [''A'', ''B''] = [''A'']"
    by (simp add: failing_env_def example_env_def rejects_B_def make_update_def)
  have run3: "docs (fst (upsert_company_data failing_env empty_world [''A'', ''B'', ''C'']
        [''price''] 2)) = apply_symbols example_data 100 [''A''] [] \<and>
      snd (upsert_company_data failing_env empty_world [''A'', ''B'', ''C''] [''price''] 2) =
        Some (BulkWriteError [1])"
    using upsert_failure_stops [OF example_chunks start3, THEN conjunct2, THEN conjunct2,
        rule_format, OF fetch3 reach3 some3]
    unfolding ts3 idx3 acc3 by (simp add: empty_world_def del: apply_symbols_Cons)
  from example_chunks_last down_env_first_batch down run1 example_chunks start2 fetch2 fail2
    run2 start3 fetch3 reach3 rej3 run3
  show ?thesis by blast
qed

text \<open>
  Claim C10. In the batch that follows batches that succeeded, once its details are
  fetched, the clock is read exactly once; the one bulk write of the batch is called
  with one operation for each symbol, and each of them sets \<open>last_updated\<close> to that
  one reading; and when the call reaches the store, the document of every symbol of
  the batch whose operation is not rejected carries that reading.
\<close>

theorem upsert_same_timestamp:
  assumes "upsert_batches env modules idx pre w0 = (w1, None)"
    and "get_modules env (idx + length pre) b modules = Inr data"
  shows "clock_reads (fst (upsert_batches env modules idx (pre @ [b]) w0)) =
           Suc (clock_reads w1) \<and>
         bulk_writes (fst (upsert_batches env modules idx (pre @ [b]) w0)) =
           bulk_writes w1 @
             (if b = [] then []
              else [build_operations b data (utcnow env (clock_reads w1))]) \<and>
         (b \<noteq> [] \<longrightarrow>
            (docs (fst (upsert_batches env modules idx (pre @ [b]) w0)),
             snd (upsert_batches env modules idx (pre @ [b]) w0)) =
              bulk_write (write_fails env (idx + length pre)) (rejects env) (docs w1)
                (build_operations b data (utcnow env (clock_reads w1))) False) \<and>
         length (build_operations b data (utcnow env (clock_reads w1))) = length b \<and>
         (\<forall>k < length b.
            map_of (set_doc (build_operations b data (utcnow env (clock_reads w1)) ! k))
              ''last_updated'' = Some (Time (utcnow env (clock_reads w1)))) \<and>
         (write_fails env (idx + length pre) = None \<longrightarrow>
          (\<forall>s \<in> set b.
             \<not> rejects env (make_update s (utcnow env (clock_reads w1)) (symbol_data_of data s)) \<longrightarrow>
             (\<exists>doc. List.find (keyed_by s)
                      (docs (fst (upsert_batches env modules idx (pre @ [b]) w0))) = Some doc \<and>
                    doc ''last_updated'' = Some (Time (utcnow env (clock_reads w1))))))"
proof -
  let ?ts = "utcnow env (clock_reads w1)"
  have run: "upsert_batches env modules idx (pre @ [b]) w0 =
      upsert_batches env modules (idx + length pre) [b] w1"
    using assms(1) by (simp add: upsert_batches_append)
  note single = upsert_batches_single [OF assms(2), of w1]
  show ?thesis
  proof (intro conjI allI impI ballI)
    show "clock_reads (fst (upsert_batches env modules idx (pre @ [b]) w0)) =
        Suc (clock_reads w1)"
      unfolding run using single by simp
    show "bulk_writes (fst (upsert_batches env modules idx (pre @ [b]) w0)) =
        bulk_writes w1 @ (if b = [] then [] else [build_operations b data ?ts])"
      unfolding run using single by simp
    show "length (build_operations b data ?ts) = length b"
      by (simp add: build_operations_def)
  next
    assume "b \<noteq> []"
    then have "upsert_batch (write_fails env (idx + length pre)) (rejects env) (docs w1) b data ?ts =
        bulk_write (write_fails env (idx + length pre)) (rejects env) (docs w1)
          (build_operations b data ?ts) False"
      by (simp add: upsert_batch_def build_operations_def)
    with single
    show "(docs (fst (upsert_batches env modules idx (pre @ [b]) w0)),
        snd (upsert_batches env modules idx (pre @ [b]) w0)) =
        bulk_write (write_fails env (idx + length pre)) (rejects env) (docs w1)
          (build_operations b data ?ts) False"
      unfolding run by (metis prod.collapse)
  next
    fix k assume "k < length b"
    then show "map_of (set_doc (build_operations b data ?ts ! k)) ''last_updated'' =
        Some (Time ?ts)"
      by (simp add: build_operations_def make_update_def)
  next
    fix s
    assume reach: "write_fails env (idx + length pre) = None"
      and s: "s \<in> set b" "\<not> rejects env (make_update s ?ts (symbol_data_of data s))"
    have "docs (fst (upsert_batches env modules idx (pre @ [b]) w0)) =
        fst (upsert_batch None (rejects env) (docs w1) b data ?ts)"
      unfolding run using single reach by simp
    moreover from s
    have "committed data ?ts (fst (upsert_batch None (rejects env) (docs w1) b data ?ts)) s"
      by (rule upsert_batch_commits)
    ultimately show "\<exists>doc. List.find (keyed_by s)
        (docs (fst (upsert_batches env modules idx (pre @ [b]) w0))) = Some doc \<and>
        doc ''last_updated'' = Some (Time ?ts)"
      by (auto simp: committed_def split: option.splits)
  qed
qed

theorem upsert_same_timestamp_witness:
  "upsert_batches example_env [''price''] 1 [[''A'', ''B'']] empty_world =
     (first_batch_world, None) \<and>
   get_modules example_env (1 + length [[''A'', ''B'']]) [''C'', ''D''] [''price''] =
     Inr example_data \<and>
   utcnow example_env (clock_reads first_batch_world) = 101 \<and>
   clock_reads (fst (upsert_batches example_env [''price''] 1
     ([[''A'', ''B'']] @ [[''C'', ''D'']]) empty_world)) = 2 \<and>
   bulk_writes (fst (upsert_batches example_env [''price''] 1
     ([[''A'', ''B'']] @ [[''C'', ''D'']]) empty_world)) =
     [build_operations [''A'', ''B''] example_data 100,
      build_operations [''C'', ''D''] example_data 101] \<and>
   map_of (set_doc (build_operations [''C'', ''D''] example_data 101 ! 0)) ''last_updated'' =
     Some (Time 101) \<and>
   map_of (set_doc (build_operations [''C'', ''D''] example_data 101 ! 1)) ''last_updated'' =
     Some (Time 101) \<and>
   write_fails example_env (1 + length [[''A'', ''B'']]) = None \<and>
   \<not> rejects example_env (make_update ''D'' 101 (symbol_data_of example_data ''D'')) \<and>
   (\<exists>doc. List.find (keyed_by ''D'')
            (docs (fst (upsert_batches example_env [''price''] 1
               ([[''A'', ''B'']] @ [[''C'', ''D'']]) empty_world))) = Some doc \<and>
          doc ''last_updated'' = Some (Time 101))"
proof -
  have fetch: "get_modules example_env (1 + length [[''A'', ''B'']]) [''C'', ''D''] [''price''] =
      Inr example_data"
    by (simp add: example_env_def)
  have ts: "utcnow example_env (clock_reads first_batch_world) = 101"
    by (simp add: example_env_def first_batch_world_def)
  have reach: "write_fails example_env (1 + length [[''A'', ''B'']]) = None"
    by (simp add: example_env_def)
  have acc: "\<not> rejects example_env (make_update s 101 (symbol_data_of example_data s))" for s
    by (simp add: example_env_def rejects_none_def)
  note res = upsert_same_timestamp [OF first_batch_run fetch, unfolded ts]
  from res [THEN conjunct1]
  have reads: "clock_reads (fst (upsert_batches example_env [''price''] 1
     ([[''A'', ''B'']] @ [[''C'', ''D'']]) empty_world)) = 2"
    by (simp add: first_batch_world_def)
  from res [THEN conjunct2, THEN conjunct1]
  have writes: "bulk_writes (fst (upsert_batches example_env [''price''] 1
     ([[''A'', ''B'']] @ [[''C'', ''D'']]) empty_world)) =
     [build_operations [''A'', ''B''] example_data 100,
      build_operations [''C'', ''D''] example_data 101]"
    by (simp add: first_batch_world_def)
  from res [THEN conjunct2, THEN conjunct2, THEN conjunct2, THEN conjunct2, THEN conjunct1]
  have stamp: "map_of (set_doc (build_operations [''C'', ''D''] example_data 101 ! k))
      ''last_updated'' = Some (Time 101)" if "k < 2" for k
    using that by simp
  from res [THEN conjunct2, THEN conjunct2, THEN conjunct2, THEN conjunct2, THEN conjunct2]
    reach acc
  have doc: "\<exists>doc. List.find (keyed_by ''D'')
            (docs (fst (upsert_batches example_env [''price''] 1
               ([[''A'', ''B'']] @ [[''C'', ''D'']]) empty_world))) = Some doc \<and>
          doc ''last_updated'' = Some (Time 101)"
    by simp
  from first_batch_run fetch ts reads writes stamp [of 0] stamp [of 1] reach acc [of "''D''"] doc
  show ?thesis by simp
qed

end
